theory Spec2Isabelle
  imports Main "HOL-Library.Word"
begin

unbundle bit_operations_syntax

section \<open>Data model of kernel/proc.c\<close>

text \<open>
  The process table \<^verbatim>\<open>struct proc proc[NPROC]\<close> is a list of records; a
  \<^verbatim>\<open>struct proc *\<close> is the index of the slot it points to (\<open>None\<close> for the null
  pointer).  \<^verbatim>\<open>NPROC\<close> is the length of the list.  C \<^verbatim>\<open>int\<close> fields are \<open>int\<close>,
  \<^verbatim>\<open>uint\<close> is \<open>32 word\<close>, \<^verbatim>\<open>uint64\<close> and \<^verbatim>\<open>void *\<close> are \<open>64 word\<close>.
  Console output (\<^verbatim>\<open>printf\<close>) is not part of the modelled state.

  The model follows one thread of control through a kernel function.  Other processes
  and CPUs act on the state only while this thread is switched out, through the
  collaborator \<open>resume\<close> below.
\<close>

datatype procstate = UNUSED | USED | SLEEPING | RUNNABLE | RUNNING | ZOMBIE

text \<open>A sleep channel (\<^verbatim>\<open>void *chan\<close>): null, the address of a process slot, or
  any other address.\<close>

datatype chan = NullChan | ProcChan nat | OtherChan nat

text \<open>The saved user registers.  The source names \<^verbatim>\<open>epc\<close>, \<^verbatim>\<open>sp\<close>, \<^verbatim>\<open>ra\<close> and
  \<^verbatim>\<open>a0\<close>; the remaining registers are kept as a list.\<close>

record trapframe =
  epc :: "64 word"
  sp :: "64 word"
  ra :: "64 word"
  a0 :: "64 word"
  regs :: "64 word list"

text \<open>The saved kernel registers (\<^verbatim>\<open>struct context\<close>): \<^verbatim>\<open>ra\<close>, \<^verbatim>\<open>sp\<close> and the
  callee-saved registers.\<close>

record kcontext =
  c_ra :: "64 word"
  c_sp :: "64 word"
  c_saved :: "64 word list"

record 'pt proc =
  lock :: bool
  state :: procstate
  chan :: chan
  killed :: int
  xstate :: int
  pid :: int
  parent :: "nat option"
  kstack :: "64 word"
  sz :: "64 word"
  pagetable :: "'pt option"
  trapframe :: "trapframe option"
  ctx :: kcontext
  ofile :: "nat \<Rightarrow> nat option"
  cwd :: "nat option"
  name :: string
  signal_handlers :: "nat \<Rightarrow> 64 word"
  signals_mask :: "32 word"
  pending_signals :: "32 word"
  stopped :: int
  signal_handling :: int
  signals_mask_backup :: "32 word"
  user_tf_backup :: "64 word"

text \<open>The global variables of proc.c.  \<^verbatim>\<open>int nextpid\<close> is kept as its 32-bit pattern,
  read as a signed value with \<open>sint\<close>, so that \<^verbatim>\<open>nextpid + 1\<close> wraps from \<open>2147483647\<close> to
  \<open>-2147483648\<close> as the compiled code does.  \<open>switches\<close> counts the context switches made
  so far; it lets the environment answer differently at each switch.\<close>

record 'pt kstate =
  procs :: "'pt proc list"
  initproc :: "nat option"
  nextpid :: "32 word"
  pid_lock :: bool
  wait_lock :: bool
  switches :: nat

text \<open>The constants of the missing headers, taken as parameters.\<close>

record sigconsts =
  SIG_DFL :: int
  SIG_IGN :: int
  SIGKILL :: int
  SIGSTOP :: int
  SIGCONT :: int

text \<open>What a C compiler needs of the constants: the three signal numbers are distinct
  (they label the cases of one \<^verbatim>\<open>switch\<close>) and lie in \<open>0..31\<close>, so that \<^verbatim>\<open>1 << SIGKILL\<close>
  is defined.\<close>

definition wf_consts :: "sigconsts \<Rightarrow> bool" where
  "wf_consts K = (0 \<le> SIGKILL K \<and> SIGKILL K \<le> 31 \<and> 0 \<le> SIGSTOP K \<and> SIGSTOP K \<le> 31
     \<and> 0 \<le> SIGCONT K \<and> SIGCONT K \<le> 31
     \<and> SIGKILL K \<noteq> SIGSTOP K \<and> SIGKILL K \<noteq> SIGCONT K \<and> SIGSTOP K \<noteq> SIGCONT K)"

text \<open>The values the xv6 signal assignment uses; they serve as the concrete instance.\<close>

definition K0 :: sigconsts where
  "K0 = \<lparr>SIG_DFL = 0, SIG_IGN = 1, SIGKILL = 9, SIGSTOP = 17, SIGCONT = 19\<rparr>"

text \<open>\<^verbatim>\<open>1 << n\<close> on a C \<^verbatim>\<open>int\<close>, as a 32-bit pattern.\<close>

definition shl1 :: "int \<Rightarrow> 32 word" where
  "shl1 n = push_bit (nat n) 1"

text \<open>\<^verbatim>\<open>(void*)c\<close> for an \<^verbatim>\<open>int\<close> constant \<open>c\<close>.\<close>

definition vptr :: "int \<Rightarrow> 64 word" where
  "vptr c = word_of_int c"

definition the_proc :: "'pt kstate \<Rightarrow> nat \<Rightarrow> 'pt proc" where
  "the_proc s p = procs s ! p"

definition upd :: "nat \<Rightarrow> ('pt proc \<Rightarrow> 'pt proc) \<Rightarrow> 'pt kstate \<Rightarrow> 'pt kstate" where
  "upd p f s = s\<lparr>procs := (procs s)[p := f (procs s ! p)]\<rparr>"

section \<open>Signal mask and eligibility\<close>

text \<open>\<^verbatim>\<open>sigprocmask\<close>: \<open>p\<close> is \<^verbatim>\<open>myproc()\<close>.  Returns the old mask and the new state.\<close>

definition sigprocmask :: "sigconsts \<Rightarrow> nat \<Rightarrow> 32 word \<Rightarrow> 'pt kstate \<Rightarrow> 32 word \<times> 'pt kstate" where
  "sigprocmask K p msk s =
     (let old_mask = signals_mask (the_proc s p);
          s1 = upd p (\<lambda>r. r\<lparr>signals_mask := msk AND NOT (shl1 (SIGKILL K) OR shl1 (SIGSTOP K))\<rparr>) s
      in (old_mask, s1))"

text \<open>\<^verbatim>\<open>is_pending_and_not_masked\<close>: \<^verbatim>\<open>non_maskable\<close> is an \<^verbatim>\<open>int\<close> expression
  sign-extended to \<^verbatim>\<open>uint64\<close>; the mask is zero-extended and \<^verbatim>\<open>1 << signum\<close>
  sign-extended for the 64-bit conjunction.\<close>

definition is_pending_and_not_masked :: "sigconsts \<Rightarrow> nat \<Rightarrow> int \<Rightarrow> 'pt kstate \<Rightarrow> int" where
  "is_pending_and_not_masked K p signum s =
     (let non_maskable = (scast (NOT (shl1 (SIGKILL K)) AND NOT (shl1 (SIGSTOP K))) :: 64 word)
      in if (pending_signals (the_proc s p) AND shl1 signum) \<noteq> 0
            \<and> \<not> ((((ucast (signals_mask (the_proc s p)) :: 64 word) AND non_maskable)
                   AND (scast (shl1 signum) :: 64 word)) \<noteq> 0)
         then 1 else 0)"

section \<open>Outcomes, locks and the context switch\<close>

text \<open>How a kernel function ends: it returns a value, it panics, it spins for ever on
  a lock that is held, or it switches to the scheduler and is never switched back.
  Each outcome carries the kernel state at that point.\<close>

datatype ('a, 's) outcome = Returns 'a 's | Panics string 's | Spins 's | Switched 's

definition obind :: "('a, 's) outcome \<Rightarrow> ('a \<Rightarrow> 's \<Rightarrow> ('b, 's) outcome) \<Rightarrow> ('b, 's) outcome" where
  "obind m f = (case m of Returns a s \<Rightarrow> f a s | Panics msg s \<Rightarrow> Panics msg s
                | Spins s \<Rightarrow> Spins s | Switched s \<Rightarrow> Switched s)"

datatype lockid = ProcLock nat | WaitLock | PidLock

fun holding :: "lockid \<Rightarrow> 'pt kstate \<Rightarrow> bool" where
  "holding (ProcLock p) s = lock (the_proc s p)"
| "holding WaitLock s = wait_lock s"
| "holding PidLock s = pid_lock s"

fun set_lock :: "lockid \<Rightarrow> bool \<Rightarrow> 'pt kstate \<Rightarrow> 'pt kstate" where
  "set_lock (ProcLock p) b s = upd p (\<lambda>r. r\<lparr>lock := b\<rparr>) s"
| "set_lock WaitLock b s = s\<lparr>wait_lock := b\<rparr>"
| "set_lock PidLock b s = s\<lparr>pid_lock := b\<rparr>"

text \<open>Modelled from the spec: \<^verbatim>\<open>acquire\<close> and \<^verbatim>\<open>release\<close> (spinlock.c is not among
  the sources).  "Exactly one thread of control may hold a record's lock at a time", so
  acquiring a lock that is held does not complete; releasing clears the lock.\<close>

definition acquire :: "lockid \<Rightarrow> 'pt kstate \<Rightarrow> (unit, 'pt kstate) outcome" where
  "acquire l s = (if holding l s then Spins s else Returns () (set_lock l True s))"

definition release :: "lockid \<Rightarrow> 'pt kstate \<Rightarrow> 'pt kstate" where
  "release l s = set_lock l False s"

text \<open>Modelled from the spec: \<^verbatim>\<open>mycpu()->noff\<close>, the depth of \<^verbatim>\<open>push_off\<close>, is the
  number of locks held (\<^verbatim>\<open>sched\<close> "requires the caller to hold exactly its own record
  lock, to hold no other lock").\<close>

definition noff :: "'pt kstate \<Rightarrow> nat" where
  "noff s = length (filter lock (procs s)) + (if wait_lock s then 1 else 0)
            + (if pid_lock s then 1 else 0)"

text \<open>The collaborators that are not in proc.c, taken as parameters: the scheduler and
  the other processes (\<open>resume\<close>: the state in which this kernel thread is switched
  back in after a \<^verbatim>\<open>swtch\<close>, or \<open>None\<close> if it never is), the page allocator, the
  virtual-memory layer, the file layer, and constants of the missing headers and of
  the assembly stub.  The calls of the file layer (\<^verbatim>\<open>fileclose\<close>, \<^verbatim>\<open>iput\<close>,
  \<^verbatim>\<open>begin_op\<close>, \<^verbatim>\<open>end_op\<close>) are taken to leave the process table as it is.\<close>

record 'pt ext =
  resume :: "'pt kstate \<Rightarrow> 'pt kstate option"
  kalloc_tf :: "'pt kstate \<Rightarrow> trapframe option"
  uvmcreate :: "'pt kstate \<Rightarrow> 'pt option"
  map_trampoline :: "'pt \<Rightarrow> 'pt option"
  map_trapframe :: "'pt \<Rightarrow> trapframe option \<Rightarrow> 'pt option"
  uvmcopy :: "'pt option \<Rightarrow> 'pt option \<Rightarrow> 64 word \<Rightarrow> int \<times> 'pt option"
  copyout_int :: "'pt option \<Rightarrow> 64 word \<Rightarrow> int \<Rightarrow> int \<times> 'pt option"
  copyin_ptr :: "'pt option \<Rightarrow> 64 word \<Rightarrow> 64 word option"
  copyin_uint :: "'pt option \<Rightarrow> 64 word \<Rightarrow> 32 word option"
  copyin_tf :: "'pt option \<Rightarrow> 64 word \<Rightarrow> trapframe \<Rightarrow> trapframe"
  copyout_tf :: "'pt option \<Rightarrow> 64 word \<Rightarrow> trapframe \<Rightarrow> 'pt option"
  copyout_stub :: "'pt option \<Rightarrow> 64 word \<Rightarrow> int \<Rightarrow> 'pt option"
  uninit_ptr :: "64 word"
  uninit_uint :: "32 word"
  func_size :: int
  sizeof_trapframe :: "64 word"
  off_sa_handler :: "64 word"
  off_sigmask :: "64 word"
  filedup :: "nat \<Rightarrow> nat"
  idup :: "nat option \<Rightarrow> nat option"
  safestrcpy :: "string \<Rightarrow> string"
  NOFILE :: nat
  forkret :: "64 word"
  PGSIZE :: "64 word"

text \<open>\<^verbatim>\<open>sched\<close>, called by process \<open>p\<close>.  Modelled from the spec: \<^verbatim>\<open>intr_get\<close> (riscv.h
  is not among the sources).  \<^verbatim>\<open>sched\<close> must be "running with interrupts disabled", and
  interrupts are disabled while a spinlock is held, so the fourth check does not fire once
  the first has passed.  The switch itself is the collaborator \<open>resume\<close>.\<close>

definition sched :: "'pt ext \<Rightarrow> nat \<Rightarrow> 'pt kstate \<Rightarrow> (unit, 'pt kstate) outcome" where
  "sched E p s =
     (if \<not> holding (ProcLock p) s then Panics ''sched p->lock'' s
      else if noff s \<noteq> 1 then Panics ''sched locks'' s
      else if state (the_proc s p) = RUNNING then Panics ''sched running'' s
      else (let s1 = s\<lparr>switches := Suc (switches s)\<rparr>
            in case resume E s1 of None \<Rightarrow> Switched s1 | Some s2 \<Rightarrow> Returns () s2))"

definition yield :: "'pt ext \<Rightarrow> nat \<Rightarrow> 'pt kstate \<Rightarrow> (unit, 'pt kstate) outcome" where
  "yield E p s =
     obind (acquire (ProcLock p) s) (\<lambda>_ s1.
     obind (sched E p (upd p (\<lambda>r. r\<lparr>state := RUNNABLE\<rparr>) s1)) (\<lambda>_ s2.
     Returns () (release (ProcLock p) s2)))"

definition sleep :: "'pt ext \<Rightarrow> nat \<Rightarrow> chan \<Rightarrow> lockid \<Rightarrow> 'pt kstate \<Rightarrow> (unit, 'pt kstate) outcome" where
  "sleep E p c lk s =
     obind (acquire (ProcLock p) s) (\<lambda>_ s1.
     obind (sched E p (upd p (\<lambda>r. r\<lparr>chan := c, state := SLEEPING\<rparr>) (release lk s1))) (\<lambda>_ s2.
     acquire lk (release (ProcLock p) (upd p (\<lambda>r. r\<lparr>chan := NullChan\<rparr>) s2))))"

text \<open>\<^verbatim>\<open>wakeup\<close>: \<open>me\<close> is what \<^verbatim>\<open>myproc()\<close> returns; the loop runs over the slots \<open>ps\<close>.\<close>

fun wakeup_loop :: "nat option \<Rightarrow> chan \<Rightarrow> nat list \<Rightarrow> 'pt kstate \<Rightarrow> (unit, 'pt kstate) outcome" where
  "wakeup_loop me c [] s = Returns () s"
| "wakeup_loop me c (p # ps) s =
     (if Some p \<noteq> me then
        obind (acquire (ProcLock p) s) (\<lambda>_ s1.
          wakeup_loop me c ps
            (release (ProcLock p)
              (if state (the_proc s1 p) = SLEEPING \<and> chan (the_proc s1 p) = c
               then upd p (\<lambda>r. r\<lparr>state := RUNNABLE\<rparr>) s1 else s1)))
      else wakeup_loop me c ps s)"

definition wakeup :: "nat option \<Rightarrow> chan \<Rightarrow> 'pt kstate \<Rightarrow> (unit, 'pt kstate) outcome" where
  "wakeup me c s = wakeup_loop me c [0..<length (procs s)] s"

text \<open>A \<^verbatim>\<open>struct proc *\<close> used as a channel.\<close>

fun ptr_chan :: "nat option \<Rightarrow> chan" where
  "ptr_chan None = NullChan"
| "ptr_chan (Some i) = ProcChan i"

section \<open>Lifecycle: allocation, fork, exit, wait\<close>

text \<open>\<^verbatim>\<open>allocpid\<close>: the pid handed out is the signed value of the counter; the
  increment wraps at 32 bits.\<close>

definition allocpid :: "'pt kstate \<Rightarrow> (int, 'pt kstate) outcome" where
  "allocpid s =
     obind (acquire PidLock s) (\<lambda>_ s1.
       Returns (sint (nextpid s1)) (release PidLock (s1\<lparr>nextpid := nextpid s1 + 1\<rparr>)))"

text \<open>\<^verbatim>\<open>freeproc\<close>.  The freed trap-frame page and page table belong to the allocator
  and the virtual-memory layer; the record keeps null pointers.\<close>

definition freeproc :: "nat \<Rightarrow> 'pt kstate \<Rightarrow> 'pt kstate" where
  "freeproc p s =
     upd p (\<lambda>r. r\<lparr>trapframe := None, pagetable := None, sz := 0, pid := 0, parent := None,
                   name := [], chan := NullChan, killed := 0, xstate := 0, state := UNUSED\<rparr>) s"





text \<open>\<^verbatim>\<open>reparent\<close>: \<open>me\<close> is \<^verbatim>\<open>myproc()\<close> as \<^verbatim>\<open>wakeup\<close> sees it.\<close>

fun reparent_loop :: "nat option \<Rightarrow> nat \<Rightarrow> nat list \<Rightarrow> 'pt kstate \<Rightarrow> (unit, 'pt kstate) outcome" where
  "reparent_loop me p [] s = Returns () s"
| "reparent_loop me p (pp # pps) s =
     (if parent (the_proc s pp) = Some p then
        obind (wakeup me (ptr_chan (initproc s)) (upd pp (\<lambda>r. r\<lparr>parent := initproc s\<rparr>) s))
          (\<lambda>_ s1. reparent_loop me p pps s1)
      else reparent_loop me p pps s)"

definition reparent :: "nat option \<Rightarrow> nat \<Rightarrow> 'pt kstate \<Rightarrow> (unit, 'pt kstate) outcome" where
  "reparent me p s = reparent_loop me p [0..<length (procs s)] s"

text \<open>\<^verbatim>\<open>exit\<close>: \<open>p\<close> is \<^verbatim>\<open>myproc()\<close>.  There is no \<open>Returns\<close> branch: after \<^verbatim>\<open>sched\<close>
  comes \<^verbatim>\<open>panic("zombie exit")\<close>.\<close>

definition exit :: "'pt ext \<Rightarrow> nat \<Rightarrow> int \<Rightarrow> 'pt kstate \<Rightarrow> (unit, 'pt kstate) outcome" where
  "exit E p status s =
     (if Some p = initproc s then Panics ''init exiting'' s
      else
        let s1 = upd p (\<lambda>r. r\<lparr>ofile := (\<lambda>fd. if fd < NOFILE E then None else ofile r fd),
                               cwd := None\<rparr>) s
        in obind (acquire WaitLock s1) (\<lambda>_ s2.
           obind (reparent (Some p) p s2) (\<lambda>_ s3.
           obind (wakeup (Some p) (ptr_chan (parent (the_proc s3 p))) s3) (\<lambda>_ s4.
           obind (acquire (ProcLock p) s4) (\<lambda>_ s5.
           obind (sched E p (release WaitLock (upd p (\<lambda>r. r\<lparr>xstate := status, state := ZOMBIE\<rparr>) s5)))
             (\<lambda>_ s6. Panics ''zombie exit'' s6))))))"

text \<open>The scan of \<^verbatim>\<open>wait\<close> over the slots.  The result is \<open>(Some r, _)\<close> when \<^verbatim>\<open>wait\<close>
  returns \<open>r\<close> from inside the scan, and \<open>(None, havekids)\<close> when the scan ends.
  \<^verbatim>\<open>copyout\<close> is called only when \<^verbatim>\<open>addr != 0\<close>.\<close>

fun wait_scan :: "'pt ext \<Rightarrow> nat \<Rightarrow> 64 word \<Rightarrow> nat list \<Rightarrow> int \<Rightarrow> 'pt kstate
    \<Rightarrow> (int option \<times> int, 'pt kstate) outcome" where
  "wait_scan E p addr [] havekids s = Returns (None, havekids) s"
| "wait_scan E p addr (np # nps) havekids s =
     (if parent (the_proc s np) = Some p then
        obind (acquire (ProcLock np) s) (\<lambda>_ s1.
          if state (the_proc s1 np) = ZOMBIE then
            (let cpid = pid (the_proc s1 np);
                 co = (if addr \<noteq> 0
                       then copyout_int E (pagetable (the_proc s1 p)) addr (xstate (the_proc s1 np))
                       else (0, pagetable (the_proc s1 p)));
                 s2 = upd p (\<lambda>r. r\<lparr>pagetable := snd co\<rparr>) s1
             in if addr \<noteq> 0 \<and> fst co < 0
                then Returns (Some (- 1), 1) (release WaitLock (release (ProcLock np) s2))
                else Returns (Some cpid, 1)
                       (release WaitLock (release (ProcLock np) (freeproc np s2))))
          else wait_scan E p addr nps 1 (release (ProcLock np) s1))
      else wait_scan E p addr nps havekids s)"

text \<open>The \<^verbatim>\<open>for(;;)\<close> loop of \<^verbatim>\<open>wait\<close>, entered with \<^verbatim>\<open>wait_lock\<close> held.  \<open>None\<close>: the
  loop runs for ever.\<close>

partial_function (option) wait_loop ::
    "'pt ext \<Rightarrow> nat \<Rightarrow> 64 word \<Rightarrow> 'pt kstate \<Rightarrow> (int, 'pt kstate) outcome option" where
  "wait_loop E p addr s =
     (case wait_scan E p addr [0..<length (procs s)] 0 s of
        Returns res s1 \<Rightarrow>
          (case fst res of
             Some r \<Rightarrow> Some (Returns r s1)
           | None \<Rightarrow>
               if snd res = 0 \<or> killed (the_proc s1 p) \<noteq> 0
               then Some (Returns (- 1) (release WaitLock s1))
               else (case sleep E p (ProcChan p) WaitLock s1 of
                       Returns _ s2 \<Rightarrow> wait_loop E p addr s2
                     | Panics msg s2 \<Rightarrow> Some (Panics msg s2)
                     | Spins s2 \<Rightarrow> Some (Spins s2)
                     | Switched s2 \<Rightarrow> Some (Switched s2)))
      | Panics msg s1 \<Rightarrow> Some (Panics msg s1)
      | Spins s1 \<Rightarrow> Some (Spins s1)
      | Switched s1 \<Rightarrow> Some (Switched s1))"

text \<open>\<^verbatim>\<open>wait\<close>: \<open>p\<close> is \<^verbatim>\<open>myproc()\<close>.\<close>

definition wait :: "'pt ext \<Rightarrow> nat \<Rightarrow> 64 word \<Rightarrow> 'pt kstate \<Rightarrow> (int, 'pt kstate) outcome option" where
  "wait E p addr s =
     (case acquire WaitLock s of
        Returns _ s1 \<Rightarrow> wait_loop E p addr s1
      | Panics msg s1 \<Rightarrow> Some (Panics msg s1)
      | Spins s1 \<Rightarrow> Some (Spins s1)
      | Switched s1 \<Rightarrow> Some (Switched s1))"

section \<open>Signals: raising, installing, returning\<close>

text \<open>The loop of \<^verbatim>\<open>kill\<close> over the slots; \<open>op\<close> is \<^verbatim>\<open>1 << signum\<close>.  The first
  \<^verbatim>\<open>return -1\<close> inside the loop has no \<^verbatim>\<open>release\<close> before it.\<close>

fun kill_loop :: "int \<Rightarrow> 32 word \<Rightarrow> nat list \<Rightarrow> 'pt kstate \<Rightarrow> (int, 'pt kstate) outcome" where
  "kill_loop tpid op [] s = Returns (- 1) s"
| "kill_loop tpid op (p # ps) s =
     obind (acquire (ProcLock p) s) (\<lambda>_ s1.
       if pid (the_proc s1 p) = tpid then
         (if killed (the_proc s1 p) \<noteq> 0 \<or> state (the_proc s1 p) = ZOMBIE
             \<or> state (the_proc s1 p) = UNUSED
          then Returns (- 1) s1
          else Returns 0
                 (release (ProcLock p)
                    (upd p (\<lambda>r. r\<lparr>pending_signals := pending_signals r OR op\<rparr>) s1)))
       else kill_loop tpid op ps (release (ProcLock p) s1))"

text \<open>\<^verbatim>\<open>kill(pid, signum)\<close>.  \<open>op\<close> is computed before the range check and not used
  when the check fails.\<close>

definition kill :: "int \<Rightarrow> int \<Rightarrow> 'pt kstate \<Rightarrow> (int, 'pt kstate) outcome" where
  "kill tpid signum s =
     (let op = shl1 signum
      in if signum < 0 \<or> signum > 31 then Returns (- 1) s
         else kill_loop tpid op [0..<length (procs s)] s)"

text \<open>\<^verbatim>\<open>sigaction\<close>: \<open>p\<close> is \<^verbatim>\<open>myproc()\<close>, \<open>act\<close> and \<open>oldact\<close> are the two pointer
  arguments and \<open>act_addr\<close> is \<^verbatim>\<open>&act\<close>, the address of the parameter itself.  Both
  \<^verbatim>\<open>memmove(&oldact, ...)\<close> calls overwrite the local pointer \<^verbatim>\<open>oldact\<close>, kept
  here as \<open>oldact1\<close>; nothing is stored through it.  The result is the return value,
  the final value of the local \<^verbatim>\<open>oldact\<close>, and the state.\<close>

definition sigaction :: "sigconsts \<Rightarrow> nat \<Rightarrow> int \<Rightarrow> 64 word \<Rightarrow> 64 word \<Rightarrow> 64 word \<Rightarrow> 'pt kstate
    \<Rightarrow> int \<times> 64 word \<times> 'pt kstate" where
  "sigaction K p signum act oldact act_addr s =
     (if signum < 0 \<or> signum > 31 then (- 1, oldact, s)
      else if signum = SIGKILL K \<or> signum = SIGSTOP K then (- 1, oldact, s)
      else if act = 0 then (- 1, oldact, s)
      else if act = vptr (SIG_DFL K) then
        (let oldact1 = (if oldact \<noteq> 0 then signal_handlers (the_proc s p) (nat signum) else oldact)
         in (0, oldact1,
             upd p (\<lambda>r. r\<lparr>signal_handlers := (signal_handlers r)(nat signum := act_addr)\<rparr>) s))
      else
        (let oldact1 = (if oldact \<noteq> 0 then signal_handlers (the_proc s p) (nat signum) else oldact)
         in (0, oldact1,
             upd p (\<lambda>r. r\<lparr>signal_handlers := (signal_handlers r)(nat signum := act)\<rparr>) s)))"


section \<open>Signals: delivery\<close>

definition sigcont_func :: "nat \<Rightarrow> 'pt kstate \<Rightarrow> 'pt kstate" where
  "sigcont_func p s = upd p (\<lambda>r. r\<lparr>stopped := 0\<rparr>) s"

definition sigstop_func :: "nat \<Rightarrow> 'pt kstate \<Rightarrow> 'pt kstate" where
  "sigstop_func p s = upd p (\<lambda>r. r\<lparr>stopped := 1\<rparr>) s"

definition sigkill_func :: "nat \<Rightarrow> 'pt kstate \<Rightarrow> (unit, 'pt kstate) outcome" where
  "sigkill_func p s =
     obind (acquire (ProcLock p) s) (\<lambda>_ s1.
       Returns ()
         (release (ProcLock p)
            (upd p (\<lambda>r. r\<lparr>killed := 1,
                           state := (if state r = SLEEPING then RUNNABLE else state r)\<rparr>) s1)))"

definition turnoff_sigbit :: "nat \<Rightarrow> int \<Rightarrow> 'pt kstate \<Rightarrow> (unit, 'pt kstate) outcome" where
  "turnoff_sigbit p i s =
     obind (acquire (ProcLock p) s) (\<lambda>_ s1.
       Returns ()
         (release (ProcLock p)
            (upd p (\<lambda>r. r\<lparr>pending_signals := pending_signals r AND NOT (shl1 i)\<rparr>) s1)))"

text \<open>The \<^verbatim>\<open>for\<close> loop of \<^verbatim>\<open>search_cont_signals\<close>.\<close>

fun scs_loop :: "sigconsts \<Rightarrow> nat \<Rightarrow> nat list \<Rightarrow> 'pt kstate \<Rightarrow> (int, 'pt kstate) outcome" where
  "scs_loop K p [] s = Returns 0 s"
| "scs_loop K p (i # is) s =
     (if is_pending_and_not_masked K p (int i) s \<noteq> 0
         \<and> signal_handlers (the_proc s p) i = vptr (SIGCONT K)
      then obind (turnoff_sigbit p (int i) (sigcont_func p s)) (\<lambda>_ s1. Returns 1 s1)
      else scs_loop K p is s)"

definition search_cont_signals :: "sigconsts \<Rightarrow> nat \<Rightarrow> 'pt kstate \<Rightarrow> (int, 'pt kstate) outcome" where
  "search_cont_signals K p s =
     (if is_pending_and_not_masked K p (SIGCONT K) s \<noteq> 0
      then obind (turnoff_sigbit p (SIGCONT K) (sigcont_func p s)) (\<lambda>_ s1. Returns 1 s1)
      else if is_pending_and_not_masked K p (SIGKILL K) s \<noteq> 0
      then obind (sigkill_func p s) (\<lambda>_ s1.
           obind (turnoff_sigbit p (SIGKILL K) s1) (\<lambda>_ s2. Returns 1 s2))
      else scs_loop K p [0..<32] s)"

text \<open>The loop \<^verbatim>\<open>while(p->stopped)\<close> of \<^verbatim>\<open>signalhandler\<close>.  \<open>None\<close>: it runs for
  ever.\<close>

partial_function (option) stop_wait ::
    "sigconsts \<Rightarrow> 'pt ext \<Rightarrow> nat \<Rightarrow> 'pt kstate \<Rightarrow> (unit, 'pt kstate) outcome option" where
  "stop_wait K E p s =
     (if stopped (the_proc s p) \<noteq> 0 then
        (case search_cont_signals K p s of
           Returns found s1 \<Rightarrow>
             if found \<noteq> 0 then Some (Returns () s1)
             else (case yield E p s1 of
                     Returns _ s2 \<Rightarrow> stop_wait K E p s2
                   | Panics msg s2 \<Rightarrow> Some (Panics msg s2)
                   | Spins s2 \<Rightarrow> Some (Spins s2)
                   | Switched s2 \<Rightarrow> Some (Switched s2))
         | Panics msg s1 \<Rightarrow> Some (Panics msg s1)
         | Spins s1 \<Rightarrow> Some (Spins s1)
         | Switched s1 \<Rightarrow> Some (Switched s1))
      else Some (Returns () s))"

text \<open>\<^verbatim>\<open>usersignalhandler\<close>.  A failed \<^verbatim>\<open>copyin\<close> leaves its destination
  uninitialised; the results of \<^verbatim>\<open>copyin\<close> and \<^verbatim>\<open>copyout\<close> are not checked.\<close>

definition usersignalhandler :: "sigconsts \<Rightarrow> 'pt ext \<Rightarrow> nat \<Rightarrow> int \<Rightarrow> 'pt kstate
    \<Rightarrow> (unit, 'pt kstate) outcome" where
  "usersignalhandler K E p signum s =
     obind (acquire (ProcLock p) s) (\<lambda>_ s1.
       let r = the_proc s1 p;
           handler = signal_handlers r (nat signum);
           dst = (case copyin_ptr E (pagetable r) (handler + off_sa_handler E) of
                    None \<Rightarrow> uninit_ptr E | Some v \<Rightarrow> v);
           sigmask = (case copyin_uint E (pagetable r) (handler + off_sigmask E) of
                        None \<Rightarrow> uninit_uint E | Some v \<Rightarrow> v);
           backup_mask = fst (sigprocmask K p sigmask s1);
           s2 = upd p (\<lambda>r. r\<lparr>signals_mask_backup := backup_mask, signal_handling := 1\<rparr>)
                  (snd (sigprocmask K p sigmask s1))
       in case trapframe (the_proc s2 p) of
            None \<Rightarrow> Panics ''kerneltrap'' s2
          | Some tf \<Rightarrow>
              let sp_n = sp tf - sizeof_trapframe E;
                  s3 = upd p (\<lambda>r. r\<lparr>user_tf_backup := sp_n,
                                     pagetable := copyout_tf E (pagetable r) sp_n tf\<rparr>) s2;
                  sp_n2 = sp_n - word_of_int (func_size E);
                  s4 = upd p (\<lambda>r. r\<lparr>pagetable := copyout_stub E (pagetable r) sp_n2 (func_size E)\<rparr>) s3
              in Returns ()
                   (release (ProcLock p)
                      (upd p (\<lambda>r. r\<lparr>trapframe :=
                                 Some (tf\<lparr>epc := dst, sp := sp_n2, a0 := word_of_int signum,
                                          ra := sp_n2\<rparr>)\<rparr>) s4)))"

text \<open>What \<^verbatim>\<open>signalhandler\<close> does with a deliverable signal \<open>i\<close> whose handler is not
  \<^verbatim>\<open>SIG_IGN\<close>: the chain of \<^verbatim>\<open>else if\<close> and the \<^verbatim>\<open>switch\<close>.\<close>

definition sh_action :: "sigconsts \<Rightarrow> 'pt ext \<Rightarrow> nat \<Rightarrow> nat \<Rightarrow> 'pt kstate \<Rightarrow> (unit, 'pt kstate) outcome" where
  "sh_action K E p i s =
     (let h = signal_handlers (the_proc s p) i
      in if h = vptr (SIG_DFL K) then
           (if int i = SIGSTOP K then Returns () (sigstop_func p s)
            else if int i = SIGCONT K then Returns () (sigcont_func p s)
            else if int i = SIGKILL K then sigkill_func p s
            else sigkill_func p s)
         else if h = vptr (SIGSTOP K) then Returns () (sigstop_func p s)
         else if h = vptr (SIGCONT K) then Returns () (sigcont_func p s)
         else if h = vptr (SIGKILL K) then sigkill_func p s
         else usersignalhandler K E p (int i) s)"

text \<open>The \<^verbatim>\<open>for\<close> loop of \<^verbatim>\<open>signalhandler\<close> over the signal numbers.  For \<^verbatim>\<open>SIG_IGN\<close>
  the source says \<^verbatim>\<open>continue\<close>, which passes over \<^verbatim>\<open>turnoff_sigbit\<close>.\<close>

fun sh_loop :: "sigconsts \<Rightarrow> 'pt ext \<Rightarrow> nat \<Rightarrow> nat list \<Rightarrow> 'pt kstate
    \<Rightarrow> (unit, 'pt kstate) outcome option" where
  "sh_loop K E p [] s = Some (Returns () s)"
| "sh_loop K E p (i # is) s =
     (if killed (the_proc s p) \<noteq> 0 then Some (Returns () s)
      else
        (case stop_wait K E p s of
           None \<Rightarrow> None
         | Some (Returns _ s1) \<Rightarrow>
             if is_pending_and_not_masked K p (int i) s1 \<noteq> 0 then
               (if signal_handling (the_proc s1 p) \<noteq> 0 then Some (Returns () s1)
                else if signal_handlers (the_proc s1 p) i = vptr (SIG_IGN K)
                then sh_loop K E p is s1
                else
                  (case obind (sh_action K E p i s1) (\<lambda>_ s2. turnoff_sigbit p (int i) s2) of
                     Returns _ s3 \<Rightarrow> sh_loop K E p is s3
                   | Panics msg s3 \<Rightarrow> Some (Panics msg s3)
                   | Spins s3 \<Rightarrow> Some (Spins s3)
                   | Switched s3 \<Rightarrow> Some (Switched s3)))
             else sh_loop K E p is s1
         | Some (Panics msg s1) \<Rightarrow> Some (Panics msg s1)
         | Some (Spins s1) \<Rightarrow> Some (Spins s1)
         | Some (Switched s1) \<Rightarrow> Some (Switched s1)))"

text \<open>\<^verbatim>\<open>signalhandler\<close>: \<open>me\<close> is what \<^verbatim>\<open>myproc()\<close> returns.\<close>

definition signalhandler :: "sigconsts \<Rightarrow> 'pt ext \<Rightarrow> nat option \<Rightarrow> 'pt kstate
    \<Rightarrow> (unit, 'pt kstate) outcome option" where
  "signalhandler K E me s =
     (case me of
        None \<Rightarrow> Some (Returns () s)
      | Some p \<Rightarrow>
          if signal_handling (the_proc s p) \<noteq> 0 then Some (Returns () s)
          else sh_loop K E p [0..<32] s)"

section \<open>A concrete table\<close>

text \<open>A four-slot table used to run the model: the bootstrap process asleep in
  \<^verbatim>\<open>wait\<close>, a running shell, a child of the shell, and a free slot.\<close>

definition TF0 :: trapframe where
  "TF0 = \<lparr>epc = 0x100, sp = 0x3000, ra = 0x104, a0 = 7, regs = []\<rparr>"

definition P_free :: "unit proc" where
  "P_free = \<lparr>lock = False, state = UNUSED, chan = NullChan, killed = 0, xstate = 0, pid = 0,
      parent = None, kstack = 0, sz = 0, pagetable = None, trapframe = None,
      ctx = \<lparr>c_ra = 0, c_sp = 0, c_saved = []\<rparr>, ofile = (\<lambda>_. None), cwd = None, name = [],
      signal_handlers = (\<lambda>_. 0), signals_mask = 0, pending_signals = 0, stopped = 0,
      signal_handling = 0, signals_mask_backup = 0, user_tf_backup = 0\<rparr>"

definition P_init :: "unit proc" where
  "P_init = P_free\<lparr>state := SLEEPING, chan := ProcChan 0, pid := 1, sz := 4096,
      pagetable := Some (), trapframe := Some TF0, name := ''init''\<rparr>"

definition P_sh :: "unit proc" where
  "P_sh = P_free\<lparr>state := RUNNING, pid := 2, parent := Some 0, sz := 8192,
      pagetable := Some (), trapframe := Some TF0, name := ''sh'', signals_mask := 4\<rparr>"

definition P_kid :: "unit proc" where
  "P_kid = P_free\<lparr>state := RUNNABLE, pid := 3, parent := Some 1, sz := 8192,
      pagetable := Some (), trapframe := Some TF0, name := ''cat''\<rparr>"

definition S0 :: "unit kstate" where
  "S0 = \<lparr>procs = [P_init, P_sh, P_kid, P_free], initproc = Some 0, nextpid = 4,
          pid_lock = False, wait_lock = False, switches = 0\<rparr>"

text \<open>Collaborators that always succeed and change nothing; the process is never
  switched back in.\<close>

definition E0 :: "unit ext" where
  "E0 = \<lparr>resume = (\<lambda>_. None), kalloc_tf = (\<lambda>_. Some (TF0\<lparr>a0 := 5\<rparr>)),
          uvmcreate = (\<lambda>_. Some ()), map_trampoline = Some, map_trapframe = (\<lambda>pt _. Some pt),
          uvmcopy = (\<lambda>_ _ _. (0, Some ())), copyout_int = (\<lambda>pt _ _. (0, pt)),
          copyin_ptr = (\<lambda>_ _. Some 0x400), copyin_uint = (\<lambda>_ _. Some 0),
          copyin_tf = (\<lambda>_ _ tf. tf), copyout_tf = (\<lambda>pt _ _. pt), copyout_stub = (\<lambda>pt _ _. pt),
          uninit_ptr = 0, uninit_uint = 0, func_size = 8, sizeof_trapframe = 288,
          off_sa_handler = 0, off_sigmask = 8, filedup = (\<lambda>f. f), idup = (\<lambda>i. i),
          safestrcpy = (\<lambda>n. n), NOFILE = 16, forkret = 0x80001000, PGSIZE = 4096\<rparr>"

section \<open>Auxiliary notions\<close>

text \<open>No lock is held: the state in which a system call starts on an otherwise idle
  machine.\<close>

definition locks_free :: "'pt kstate \<Rightarrow> bool" where
  "locks_free s = (\<not> wait_lock s \<and> \<not> pid_lock s \<and> (\<forall>r \<in> set (procs s). \<not> lock r))"

text \<open>The concrete table with the shell's child exited (status 42) and not yet reaped.\<close>

definition S_zombie :: "unit kstate" where
  "S_zombie = upd 2 (\<lambda>r. r\<lparr>state := ZOMBIE, xstate := 42\<rparr>) S0"

text \<open>The shell with signal 5 pending, unmasked, and its handler set to \<^verbatim>\<open>SIG_IGN\<close>.\<close>

definition S_ign :: "unit kstate" where
  "S_ign = upd 1 (\<lambda>r. r\<lparr>pending_signals := shl1 5,
                         signal_handlers := (signal_handlers r)(5 := vptr (SIG_IGN K0))\<rparr>) S0"

text \<open>The shell with a handler at address \<open>0x4000\<close> already installed for signal 5.\<close>

definition S_handler :: "unit kstate" where
  "S_handler = upd 1 (\<lambda>r. r\<lparr>signal_handlers := (signal_handlers r)(5 := 0x4000)\<rparr>) S0"



text \<open>Collaborators as \<open>E0\<close>, except that copying out to user memory fails.\<close>

definition E_cofail :: "unit ext" where
  "E_cofail = E0\<lparr>copyout_int := (\<lambda>pt _ _. (- 1, pt))\<rparr>"

text \<open>The concrete table with the shell marked killed.\<close>

definition S_killed :: "unit kstate" where
  "S_killed = upd 1 (\<lambda>r. r\<lparr>killed := 1\<rparr>) S0"

section \<open>Table updates\<close>

lemma the_proc_upd_same [simp]: "p < length (procs s) \<Longrightarrow> the_proc (upd p f s) p = f (the_proc s p)"
  by (simp add: the_proc_def upd_def)

lemma the_proc_upd_other [simp]: "q \<noteq> p \<Longrightarrow> the_proc (upd p f s) q = the_proc s q"
  by (simp add: the_proc_def upd_def)

lemma length_procs_upd [simp]: "length (procs (upd p f s)) = length (procs s)"
  by (simp add: upd_def)

section \<open>Bit-level facts\<close>

lemma bit_shl1: "0 \<le> k \<Longrightarrow> k \<le> 31 \<Longrightarrow> bit (shl1 k) n \<longleftrightarrow> n = nat k"
  by (auto simp: shl1_def bit_simps)

lemma and_shl1_zero: "0 \<le> k \<Longrightarrow> k \<le> 31 \<Longrightarrow> (w AND shl1 k = 0) \<longleftrightarrow> \<not> bit w (nat k)"
proof
  assume k: "0 \<le> k" "k \<le> 31" and z: "w AND shl1 k = 0"
  have "\<not> bit (w AND shl1 k) (nat k)" unfolding z by simp
  then show "\<not> bit w (nat k)" by (simp add: bit_and_iff bit_shl1 [OF k])
next
  assume k: "0 \<le> k" "k \<le> 31" and nb: "\<not> bit w (nat k)"
  show "w AND shl1 k = 0"
  proof (rule bit_eqI)
    fix n show "bit (w AND shl1 k) n = bit (0 :: 32 word) n"
      using nb by (auto simp: bit_and_iff bit_shl1 [OF k])
  qed
qed

lemma masked_test_zero:
  assumes h: "0 \<le> a" "a \<le> 31" "0 \<le> b" "b \<le> 31" "0 \<le> k" "k \<le> 31"
  shows "((((ucast (m :: 32 word) :: 64 word) AND (scast (NOT (shl1 a) AND NOT (shl1 b)) :: 64 word))
            AND (scast (shl1 k) :: 64 word)) = 0) \<longleftrightarrow> \<not> (bit m (nat k) \<and> k \<noteq> a \<and> k \<noteq> b)"
proof -
  let ?W = "(((ucast m :: 64 word) AND (scast (NOT (shl1 a) AND NOT (shl1 b)) :: 64 word))
              AND (scast (shl1 k) :: 64 word))"
  have b: "bit ?W n \<longleftrightarrow> (n = nat k \<and> bit m (nat k) \<and> k \<noteq> a \<and> k \<noteq> b)" for n
  proof (cases "n < 32")
    case True
    then have "min 31 n = n" by simp
    with True h show ?thesis by (auto simp: bit_simps bit_shl1)
  next
    case False
    then have "\<not> bit m n" using bit_imp_le_length [of m n] by auto
    then have "\<not> bit (ucast m :: 64 word) n" by (simp add: bit_simps)
    with False h show ?thesis by (auto simp: bit_and_iff)
  qed
  show ?thesis
  proof
    assume "?W = 0"
    then have "\<not> bit ?W (nat k)" by simp
    then show "\<not> (bit m (nat k) \<and> k \<noteq> a \<and> k \<noteq> b)" unfolding b by simp
  next
    assume "\<not> (bit m (nat k) \<and> k \<noteq> a \<and> k \<noteq> b)"
    then have "\<not> bit ?W n" for n unfolding b by simp
    then show "?W = 0" by (intro bit_eqI) simp
  qed
qed

lemma bit_clear_two:
  assumes "0 \<le> a" "a \<le> 31" "0 \<le> b" "b \<le> 31"
  shows "bit (m AND NOT (shl1 a OR shl1 b)) n \<longleftrightarrow> bit m n \<and> n \<noteq> nat a \<and> n \<noteq> nat b"
  using assms bit_imp_le_length [of m n] by (auto simp: bit_simps bit_shl1)

lemma is_pending_and_not_masked_iff:
  assumes "wf_consts K" "0 \<le> k" "k \<le> 31"
  shows "is_pending_and_not_masked K p k s =
     (if bit (pending_signals (the_proc s p)) (nat k)
         \<and> \<not> (bit (signals_mask (the_proc s p)) (nat k) \<and> k \<noteq> SIGKILL K \<and> k \<noteq> SIGSTOP K)
      then 1 else 0)"
proof -
  from assms(1) have c: "0 \<le> SIGKILL K" "SIGKILL K \<le> 31" "0 \<le> SIGSTOP K" "SIGSTOP K \<le> 31"
    by (simp_all add: wf_consts_def)
  show ?thesis
    unfolding is_pending_and_not_masked_def Let_def
    by (simp only: and_shl1_zero [OF assms(2,3)] masked_test_zero [OF c assms(2,3)] not_not)
qed

lemma wf_consts_K0: "wf_consts K0"
  by (simp add: wf_consts_def K0_def)

section \<open>C6: the mask can never block the two non-maskable signals\<close>

text \<open>
  Claim C6.  For every requested mask \<open>m\<close>, \<^verbatim>\<open>sigprocmask(m)\<close> returns the mask that was
  stored before and stores \<open>m\<close> with the bits of \<^verbatim>\<open>SIGKILL\<close> and \<^verbatim>\<open>SIGSTOP\<close> cleared,
  changing nothing else; and whatever mask a process has stored, a pending
  \<^verbatim>\<open>SIGKILL\<close> or \<^verbatim>\<open>SIGSTOP\<close> passes the test \<^verbatim>\<open>is_pending_and_not_masked\<close>.
\<close>

theorem sigprocmask_forces_nonmaskable_clear:
  assumes "wf_consts K" and "p < length (procs s)"
  shows "fst (sigprocmask K p m s) = signals_mask (the_proc s p)
       \<and> snd (sigprocmask K p m s)
           = upd p (\<lambda>r. r\<lparr>signals_mask := signals_mask (the_proc (snd (sigprocmask K p m s)) p)\<rparr>) s
       \<and> (\<forall>n. bit (signals_mask (the_proc (snd (sigprocmask K p m s)) p)) n
               \<longleftrightarrow> bit m n \<and> n \<noteq> nat (SIGKILL K) \<and> n \<noteq> nat (SIGSTOP K))
       \<and> (\<forall>t q k. (k = SIGKILL K \<or> k = SIGSTOP K) \<and> bit (pending_signals (the_proc t q)) (nat k)
               \<longrightarrow> is_pending_and_not_masked K q k (t :: 'a kstate) = 1)"
proof -
  from assms(1) have c: "0 \<le> SIGKILL K" "SIGKILL K \<le> 31" "0 \<le> SIGSTOP K" "SIGSTOP K \<le> 31"
    by (simp_all add: wf_consts_def)
  have 1: "fst (sigprocmask K p m s) = signals_mask (the_proc s p)"
    by (simp add: sigprocmask_def Let_def)
  have m: "signals_mask (the_proc (snd (sigprocmask K p m s)) p)
             = m AND NOT (shl1 (SIGKILL K) OR shl1 (SIGSTOP K))"
    using assms(2) by (simp add: sigprocmask_def Let_def)
  have 2: "snd (sigprocmask K p m s)
           = upd p (\<lambda>r. r\<lparr>signals_mask := signals_mask (the_proc (snd (sigprocmask K p m s)) p)\<rparr>) s"
    unfolding m by (simp add: sigprocmask_def Let_def)
  have 3: "\<forall>n. bit (signals_mask (the_proc (snd (sigprocmask K p m s)) p)) n
               \<longleftrightarrow> bit m n \<and> n \<noteq> nat (SIGKILL K) \<and> n \<noteq> nat (SIGSTOP K)"
    unfolding m by (simp only: bit_clear_two [OF c]) simp
  have 4: "\<forall>t q k. (k = SIGKILL K \<or> k = SIGSTOP K) \<and> bit (pending_signals (the_proc t q)) (nat k)
               \<longrightarrow> is_pending_and_not_masked K q k (t :: 'a kstate) = 1"
    using c by (auto simp: is_pending_and_not_masked_iff [OF assms(1)])
  from 1 2 3 4 show ?thesis by blast
qed

text \<open>At the concrete table: the shell (slot 1, stored mask 4) asks for the mask with
  every bit set.  The old mask 4 is returned, bits 9 and 17 are not stored, and a shell
  with every bit masked and \<^verbatim>\<open>SIGKILL\<close> pending still has it deliverable.\<close>

theorem sigprocmask_forces_nonmaskable_clear_witness:
  "wf_consts K0 \<and> 1 < length (procs S0)
   \<and> fst (sigprocmask K0 1 (- 1) S0) = 4
   \<and> \<not> bit (signals_mask (the_proc (snd (sigprocmask K0 1 (- 1) S0)) 1)) 9
   \<and> \<not> bit (signals_mask (the_proc (snd (sigprocmask K0 1 (- 1) S0)) 1)) 17
   \<and> bit (signals_mask (the_proc (snd (sigprocmask K0 1 (- 1) S0)) 1)) 10
   \<and> is_pending_and_not_masked K0 1 9
        (upd 1 (\<lambda>r. r\<lparr>signals_mask := - 1, pending_signals := 512\<rparr>) S0) = 1"
proof -
  have h: "wf_consts K0" "1 < length (procs S0)"
    by (simp_all add: wf_consts_K0 S0_def)
  have p: "bit (pending_signals (the_proc (upd 1 (\<lambda>r. r\<lparr>signals_mask := - 1, pending_signals := 512\<rparr>) S0) 1))
             (nat (SIGKILL K0))"
    using h(2) by (simp add: K0_def bit_iff_odd)
  have k: "SIGKILL K0 = 9" "SIGSTOP K0 = 17" "signals_mask (the_proc S0 1) = 4"
    by (simp_all add: K0_def S0_def the_proc_def P_sh_def P_free_def)
  note T = sigprocmask_forces_nonmaskable_clear [OF h, of "- 1"]
  from T have "fst (sigprocmask K0 1 (- 1) S0) = signals_mask (the_proc S0 1)"
    by blast
  then have 1: "fst (sigprocmask K0 1 (- 1) S0) = 4"
    by (simp only: k)
  from T have b: "bit (signals_mask (the_proc (snd (sigprocmask K0 1 (- 1) S0)) 1)) n
      \<longleftrightarrow> bit (- 1 :: 32 word) n \<and> n \<noteq> nat (SIGKILL K0) \<and> n \<noteq> nat (SIGSTOP K0)" for n
    by blast
  from T p have "is_pending_and_not_masked K0 1 (SIGKILL K0)
        (upd 1 (\<lambda>r. r\<lparr>signals_mask := - 1, pending_signals := 512\<rparr>) S0) = 1"
    by blast
  then have 4: "is_pending_and_not_masked K0 1 9
        (upd 1 (\<lambda>r. r\<lparr>signals_mask := - 1, pending_signals := 512\<rparr>) S0) = 1"
    by (simp only: k)
  have 3: "\<not> bit (signals_mask (the_proc (snd (sigprocmask K0 1 (- 1) S0)) 1)) 9"
    "\<not> bit (signals_mask (the_proc (snd (sigprocmask K0 1 (- 1) S0)) 1)) 17"
    "bit (signals_mask (the_proc (snd (sigprocmask K0 1 (- 1) S0)) 1)) 10"
    using b [of 9] b [of 17] b [of 10] by (simp_all add: k)
  from h 1 3 4 show ?thesis
    by blast
qed

section \<open>Locks and table updates\<close>

lemma upd_upd [simp]: "upd p f (upd p g s) = upd p (\<lambda>r. f (g r)) s"
  by (cases "p < length (procs s)") (simp_all add: upd_def list_update_beyond)

lemma upd_eqI: "p < length (procs s) \<Longrightarrow> f (the_proc s p) = g (the_proc s p) \<Longrightarrow> upd p f s = upd p g s"
  by (simp add: upd_def the_proc_def)

lemma upd_idI: "f (the_proc s p) = the_proc s p \<Longrightarrow> upd p f s = s"
  by (simp add: upd_def the_proc_def)

lemma lock_False_id: "\<not> lock r \<Longrightarrow> r\<lparr>lock := False\<rparr> = r"
  by (cases r) simp

lemma acquire_proc_free:
  "\<not> lock (the_proc s p) \<Longrightarrow> acquire (ProcLock p) s = Returns () (upd p (\<lambda>r. r\<lparr>lock := True\<rparr>) s)"
  by (simp add: acquire_def)

lemma release_proc [simp]: "release (ProcLock p) s = upd p (\<lambda>r. r\<lparr>lock := False\<rparr>) s"
  by (simp add: release_def)

lemma obind_Returns [simp]: "obind (Returns a s) f = f a s"
  by (simp add: obind_def)

lemma locks_free_proc: "locks_free s \<Longrightarrow> p < length (procs s) \<Longrightarrow> \<not> lock (the_proc s p)"
  by (simp add: locks_free_def the_proc_def)

lemma locks_free_all:
  "locks_free s \<Longrightarrow> \<forall>p \<in> set [0..<length (procs s)]. p < length (procs s) \<and> \<not> lock (the_proc s p)"
  by (simp add: locks_free_proc)

section \<open>Facts about the concrete table\<close>

lemma S0_slots:
  "length (procs S0) = 4" "the_proc S0 0 = P_init" "the_proc S0 1 = P_sh"
  "the_proc S0 2 = P_kid" "the_proc S0 3 = P_free"
  "the_proc S0 (Suc 0) = P_sh" "the_proc S0 (Suc (Suc 0)) = P_kid"
  by (simp_all add: S0_def the_proc_def numeral_2_eq_2)

lemma S0_globals: "\<not> wait_lock S0" "\<not> pid_lock S0" "initproc S0 = Some 0" "nextpid S0 = 4"
  by (simp_all add: S0_def)

lemma locks_free_S0: "locks_free S0"
  by (simp add: locks_free_def S0_def P_init_def P_sh_def P_kid_def P_free_def)

lemma less_4_cases: "q < 4 \<Longrightarrow> q = 0 \<or> q = 1 \<or> q = 2 \<or> q = (3::nat)"
  by arith


lemma S_zombie_slots:
  "length (procs S_zombie) = 4" "the_proc S_zombie 0 = P_init" "the_proc S_zombie 1 = P_sh"
  "the_proc S_zombie 2 = P_kid\<lparr>state := ZOMBIE, xstate := 42\<rparr>" "the_proc S_zombie 3 = P_free"
  by (simp_all add: S_zombie_def S0_slots)

lemma Suc_Suc_0: "Suc (Suc 0) = 2"
  by simp

lemma S_zombie_slots_Suc:
  "the_proc S_zombie (Suc 0) = P_sh"
  "the_proc S_zombie (Suc (Suc 0)) = P_kid\<lparr>state := ZOMBIE, xstate := 42\<rparr>"
  using S_zombie_slots(3,4) by (simp_all only: Suc_Suc_0 [symmetric] One_nat_def)

lemma locks_free_upd: "locks_free s \<Longrightarrow> p < length (procs s) \<Longrightarrow> lock (f (the_proc s p)) = False \<Longrightarrow> locks_free (upd p f s)"
  unfolding locks_free_def upd_def the_proc_def
  by (auto dest!: set_update_subset_insert [THEN subsetD])

lemma locks_free_S_zombie: "locks_free S_zombie"
  unfolding S_zombie_def
  by (rule locks_free_upd [OF locks_free_S0]) (simp_all add: S0_slots P_kid_def P_free_def)

section \<open>kill\<close>

lemma kill_loop_found:
  assumes "\<forall>p \<in> set ps. p < length (procs s) \<and> \<not> lock (the_proc s p)"
  shows "kill_loop tpid op ps s =
     (case find (\<lambda>p. pid (the_proc s p) = tpid) ps of
        None \<Rightarrow> Returns (- 1) s
      | Some p \<Rightarrow>
          if killed (the_proc s p) \<noteq> 0 \<or> state (the_proc s p) = ZOMBIE \<or> state (the_proc s p) = UNUSED
          then Returns (- 1) (upd p (\<lambda>r. r\<lparr>lock := True\<rparr>) s)
          else Returns 0 (upd p (\<lambda>r. r\<lparr>pending_signals := pending_signals r OR op\<rparr>) s))"
  using assms
proof (induction ps)
  case Nil
  show ?case by simp
next
  case (Cons p ps)
  then have p: "p < length (procs s)" "\<not> lock (the_proc s p)" by simp_all
  have rel: "upd p (\<lambda>r. r\<lparr>lock := False\<rparr>) s = s"
    using p by (intro upd_idI) (simp add: lock_False_id)
  have set: "upd p (\<lambda>r. r\<lparr>pending_signals := pending_signals r OR op, lock := False\<rparr>) s
       = upd p (\<lambda>r. r\<lparr>pending_signals := pending_signals r OR op\<rparr>) s"
    using p by (intro upd_eqI) (simp_all add: lock_False_id)
  show ?case
  proof (cases "pid (the_proc s p) = tpid")
    case True
    with p show ?thesis by (simp add: acquire_proc_free set)
  next
    case False
    with p Cons show ?thesis by (simp add: acquire_proc_free rel)
  qed
qed

lemma find_upt_first:
  assumes "p < n" "P p" "\<forall>q<p. \<not> P q"
  shows "find P [0..<n] = Some p"
proof -
  have "\<exists>i<length [0..<n]. P ([0..<n] ! i) \<and> p = [0..<n] ! i \<and> (\<forall>j<i. \<not> P ([0..<n] ! j))"
    using assms by (intro exI [of _ p]) simp
  then show ?thesis by (simp only: find_Some_iff)
qed

lemma find_upt_none: "\<forall>q<n. \<not> P q \<Longrightarrow> find P [0..<n] = None"
  by (simp add: find_None_iff)


section \<open>C4: what kill returns and what it changes\<close>



section \<open>C2: the lock on the failure path of kill\<close>

lemma upt_0_4: "[0..<4] = [0, 1, 2, 3]"
  by (simp add: upt_rec)

lemma kill_on_held_lock_spins:
  "kill 3 5 (upd 2 (\<lambda>r. r\<lparr>lock := True\<rparr>) S_zombie) = Spins (upd 2 (\<lambda>r. r\<lparr>lock := True\<rparr>) S_zombie)"
proof -
  define T where "T = upd 2 (\<lambda>r. r\<lparr>lock := True\<rparr>) S_zombie"
  have sl: "length (procs T) = 4" "the_proc T 0 = P_init" "the_proc T 1 = P_sh"
    "the_proc T 2 = P_kid\<lparr>state := ZOMBIE, xstate := 42, lock := True\<rparr>"
    by (simp_all add: T_def S_zombie_slots S_zombie_slots_Suc)
  have f0: "0 < length (procs T)" "\<not> lock (the_proc T 0)" "pid (the_proc T 0) \<noteq> 3"
    unfolding sl by (simp_all add: P_init_def P_free_def)
  have f1: "1 < length (procs T)" "\<not> lock (the_proc T 1)" "pid (the_proc T 1) \<noteq> 3"
    unfolding sl by (simp_all add: P_sh_def P_free_def)
  have f2: "lock (the_proc T 2)"
    unfolding sl by simp
  have r0: "upd 0 (\<lambda>r. r\<lparr>lock := False\<rparr>) T = T"
    using f0 by (intro upd_idI) (simp add: lock_False_id)
  have r1: "upd 1 (\<lambda>r. r\<lparr>lock := False\<rparr>) T = T"
    using f1 by (intro upd_idI) (simp add: lock_False_id)
  note f1' = f1 [unfolded One_nat_def] and r1' = r1 [unfolded One_nat_def]
  show ?thesis
    unfolding T_def [symmetric] kill_def Let_def sl(1) upt_0_4
    using f0 f1' f2 by (simp add: acquire_proc_free r0 r1') (simp add: acquire_def obind_def)
qed

text \<open>
  Claim C2 says that every return path of \<^verbatim>\<open>kill\<close> releases the record lock it took, in
  particular the path taken when the record found is killed, \<^verbatim>\<open>ZOMBIE\<close> or \<^verbatim>\<open>UNUSED\<close>.
  The code returns \<open>-1\<close> on that path with the lock still held.  Evaluated at the
  concrete table with the child (pid 3, slot 2) a zombie and no lock held before the
  call: \<^verbatim>\<open>kill(3, 5)\<close> returns \<open>-1\<close> and the lock of slot 2 is held afterwards; a second
  \<^verbatim>\<open>kill(3, 5)\<close> then spins on that lock and does not return.
\<close>

theorem kill_zombie_leaves_lock_held:
  "\<not> lock (the_proc S_zombie 2) \<and> pid (the_proc S_zombie 2) = 3 \<and> state (the_proc S_zombie 2) = ZOMBIE
   \<and> kill 3 5 S_zombie = Returns (- 1) (upd 2 (\<lambda>r. r\<lparr>lock := True\<rparr>) S_zombie)
   \<and> lock (the_proc (upd 2 (\<lambda>r. r\<lparr>lock := True\<rparr>) S_zombie) 2)
   \<and> kill 3 5 (upd 2 (\<lambda>r. r\<lparr>lock := True\<rparr>) S_zombie)
       = Spins (upd 2 (\<lambda>r. r\<lparr>lock := True\<rparr>) S_zombie)"
proof -
  have a: "find (\<lambda>p. pid (the_proc S_zombie p) = 3) [0..<length (procs S_zombie)] = Some 2"
    by (rule find_upt_first)
       (auto simp: S_zombie_slots S_zombie_slots_Suc less_Suc_eq numeral_2_eq_2 P_kid_def P_free_def P_init_def P_sh_def)
  have b: "pid (the_proc S_zombie 2) = 3" "state (the_proc S_zombie 2) = ZOMBIE"
    by (simp_all add: S_zombie_slots P_kid_def P_free_def)
  have "kill 3 5 S_zombie = Returns (- 1) (upd 2 (\<lambda>r. r\<lparr>lock := True\<rparr>) S_zombie)"
    unfolding kill_def Let_def kill_loop_found [OF locks_free_all [OF locks_free_S_zombie]] a
    using b by simp
  with b kill_on_held_lock_spins show ?thesis
    by (simp add: S_zombie_slots P_kid_def P_free_def)
qed

section \<open>C1: an ignored signal stays pending\<close>

lemma stop_wait_not_stopped:
  "stopped (the_proc s p) = 0 \<Longrightarrow> stop_wait K E p s = Some (Returns () s)"
  by (subst stop_wait.simps) simp

lemma sh_loop_all_ignored:
  assumes "killed (the_proc s p) = 0" "stopped (the_proc s p) = 0"
    and "\<forall>i \<in> set js. is_pending_and_not_masked K p (int i) s \<noteq> 0
            \<longrightarrow> signal_handlers (the_proc s p) i = vptr (SIG_IGN K)"
  shows "sh_loop K E p js s = Some (Returns () s)"
  using assms
  by (induction js) (simp_all add: stop_wait_not_stopped)

lemma S_ign_shell:
  "the_proc S_ign 1 = P_sh\<lparr>pending_signals := shl1 5,
       signal_handlers := (signal_handlers P_sh)(5 := vptr (SIG_IGN K0))\<rparr>"
  by (simp add: S_ign_def S0_slots)

text \<open>
  Claim C1 says that one pass of the delivery loop clears the pending bit of every signal
  it handles, also when the action is \<^verbatim>\<open>SIG_IGN\<close>.  In \<^verbatim>\<open>signalhandler\<close> the \<^verbatim>\<open>SIG_IGN\<close>
  branch is \<^verbatim>\<open>continue\<close>, so \<^verbatim>\<open>turnoff_sigbit\<close> at the end of the loop body is not
  reached.  Evaluated for the shell of the concrete table with signal 5 pending, unmasked
  and ignored: the pass returns the state it was given, with bit 5 still pending.
\<close>

theorem signalhandler_ignore_keeps_pending:
  "is_pending_and_not_masked K0 1 5 S_ign = 1
   \<and> signal_handlers (the_proc S_ign 1) 5 = vptr (SIG_IGN K0)
   \<and> signalhandler K0 E0 (Some 1) S_ign = Some (Returns () S_ign)
   \<and> bit (pending_signals (the_proc S_ign 1)) 5"
proof -
  have f: "killed (the_proc S_ign 1) = 0" "stopped (the_proc S_ign 1) = 0"
    "signal_handling (the_proc S_ign 1) = 0" "signals_mask (the_proc S_ign 1) = 4"
    "pending_signals (the_proc S_ign 1) = shl1 5"
    "signal_handlers (the_proc S_ign 1) 5 = vptr (SIG_IGN K0)"
    unfolding S_ign_shell by (simp_all add: P_sh_def P_free_def)
  note f' = f [unfolded One_nat_def]
  have pend: "is_pending_and_not_masked K0 1 (int i) S_ign \<noteq> 0 \<longleftrightarrow> i = 5" if "i < 32" for i
  proof -
    have "bit (4 :: 32 word) 5 = False" by (simp add: bit_iff_odd)
    with that show ?thesis
      by (simp add: is_pending_and_not_masked_iff [OF wf_consts_K0] f' bit_shl1)
  qed
  have "sh_loop K0 E0 1 [0..<32] S_ign = Some (Returns () S_ign)"
    using pend f by (intro sh_loop_all_ignored) auto
  then have run: "signalhandler K0 E0 (Some 1) S_ign = Some (Returns () S_ign)"
    by (simp add: signalhandler_def f f')
  have "is_pending_and_not_masked K0 1 (int 5) S_ign \<noteq> 0"
    by (simp only: pend)
  then have one: "is_pending_and_not_masked K0 1 5 S_ign = 1"
    by (simp add: is_pending_and_not_masked_def Let_def split: if_splits)
  have "bit (shl1 5) 5" by (simp add: bit_shl1)
  with run one f show ?thesis by simp
qed

section \<open>C3: sigaction\<close>

lemma sigaction_rejects:
  "signum < 0 \<or> 31 < signum \<or> signum = SIGKILL K \<or> signum = SIGSTOP K \<or> act = 0
   \<Longrightarrow> sigaction K p signum act oldact act_addr s = (- 1, oldact, s)"
  by (auto simp: sigaction_def)

lemma sigaction_installs:
  "0 \<le> signum \<Longrightarrow> signum \<le> 31 \<Longrightarrow> signum \<noteq> SIGKILL K \<Longrightarrow> signum \<noteq> SIGSTOP K \<Longrightarrow> act \<noteq> 0
   \<Longrightarrow> act \<noteq> vptr (SIG_DFL K)
   \<Longrightarrow> sigaction K p signum act oldact act_addr s
       = (0, if oldact \<noteq> 0 then signal_handlers (the_proc s p) (nat signum) else oldact,
          upd p (\<lambda>r. r\<lparr>signal_handlers := (signal_handlers r)(nat signum := act)\<rparr>) s)"
  by (simp add: sigaction_def Let_def)

lemma sigaction_memory:
  "pagetable (the_proc (snd (snd (sigaction K p signum act oldact act_addr s))) q)
     = pagetable (the_proc s q)"
proof (cases "p < length (procs s)")
  case True
  then show ?thesis
    by (cases "q = p") (simp_all add: sigaction_def Let_def)
next
  case False
  then have "upd p f s = s" for f by (simp add: upd_def list_update_beyond)
  then show ?thesis by (simp add: sigaction_def Let_def)
qed

text \<open>
  Claim C3 says that \<^verbatim>\<open>sigaction\<close> with a non-null \<^verbatim>\<open>oldact\<close> writes the handler that
  was installed to the location \<^verbatim>\<open>oldact\<close> points to.  The code copies it over the
  local pointer variable instead (\<^verbatim>\<open>memmove(&oldact, ...)\<close>).  Evaluated for the shell
  with handler \<open>0x4000\<close> installed for signal 5: the call with \<open>act = 0x5000\<close> and
  \<open>oldact = 0x6000\<close> returns \<open>0\<close>, installs \<open>0x5000\<close>, leaves the old value \<open>0x4000\<close> in
  the dead local, and changes nothing but the handler table: the address space of the
  caller is as before.
\<close>

theorem sigaction_does_not_report_old_handler:
  "signal_handlers (the_proc S_handler 1) 5 = 0x4000
   \<and> sigaction K0 1 5 0x5000 0x6000 0x3FFFFFDF00 S_handler
       = (0, 0x4000, upd 1 (\<lambda>r. r\<lparr>signal_handlers := (signal_handlers r)(5 := 0x5000)\<rparr>) S_handler)
   \<and> pagetable (the_proc (upd 1 (\<lambda>r. r\<lparr>signal_handlers := (signal_handlers r)(5 := 0x5000)\<rparr>) S_handler) 1)
       = pagetable (the_proc S_handler 1)"
proof -
  have h: "signal_handlers (the_proc S_handler 1) 5 = 0x4000"
    by (simp add: S_handler_def S0_slots)
  have "sigaction K0 1 5 0x5000 0x6000 0x3FFFFFDF00 S_handler
       = (0, if (0x6000 :: 64 word) \<noteq> 0 then signal_handlers (the_proc S_handler 1) (nat 5) else 0x6000,
          upd 1 (\<lambda>r. r\<lparr>signal_handlers := (signal_handlers r)(nat 5 := 0x5000)\<rparr>) S_handler)"
    by (rule sigaction_installs) (simp_all add: K0_def vptr_def)
  with h show ?thesis
    by (simp add: S_handler_def S0_slots)
qed

section \<open>Allocation and fork\<close>

lemma locks_free_iff:
  "locks_free s \<longleftrightarrow> \<not> wait_lock s \<and> \<not> pid_lock s \<and> (\<forall>q < length (procs s). \<not> lock (the_proc s q))"
  by (simp add: locks_free_def the_proc_def all_set_conv_all_nth)

lemma the_proc_globals [simp]:
  "the_proc (s\<lparr>nextpid := n\<rparr>) q = the_proc s q"
  "the_proc (s\<lparr>wait_lock := b\<rparr>) q = the_proc s q"
  "the_proc (s\<lparr>pid_lock := b\<rparr>) q = the_proc s q"
  "the_proc (s\<lparr>switches := k\<rparr>) q = the_proc s q"
  by (simp_all add: the_proc_def)

lemma upd_globals [simp]:
  "procs (upd p f s) = (procs s)[p := f (procs s ! p)]"
  "wait_lock (upd p f s) = wait_lock s" "pid_lock (upd p f s) = pid_lock s"
  "nextpid (upd p f s) = nextpid s" "initproc (upd p f s) = initproc s"
  "switches (upd p f s) = switches s"
  by (simp_all add: upd_def)

lemma upd_commute_globals [simp]:
  "upd p f (s\<lparr>nextpid := n\<rparr>) = (upd p f s)\<lparr>nextpid := n\<rparr>"
  "upd p f (s\<lparr>wait_lock := b\<rparr>) = (upd p f s)\<lparr>wait_lock := b\<rparr>"
  "upd p f (s\<lparr>pid_lock := b\<rparr>) = (upd p f s)\<lparr>pid_lock := b\<rparr>"
  "upd p f (s\<lparr>switches := k\<rparr>) = (upd p f s)\<lparr>switches := k\<rparr>"
  by (simp_all add: upd_def)


lemma allocpid_free:
  "\<not> pid_lock s \<Longrightarrow> allocpid s = Returns (sint (nextpid s)) (s\<lparr>nextpid := nextpid s + 1\<rparr>)"
  by (simp add: allocpid_def acquire_def release_def)




lemma acquire_wait_free: "\<not> wait_lock s \<Longrightarrow> acquire WaitLock s = Returns () (s\<lparr>wait_lock := True\<rparr>)"
  by (simp add: acquire_def)

lemma release_wait [simp]: "release WaitLock s = s\<lparr>wait_lock := False\<rparr>"
  by (simp add: release_def)

lemma wait_lock_False_id: "\<not> wait_lock s \<Longrightarrow> s\<lparr>wait_lock := False\<rparr> = s"
  by (cases s) simp

section \<open>C7: what fork gives the child, and what failure leaves\<close>

lemma allocpid_wraps:
  "allocpid (S0\<lparr>nextpid := 2147483647\<rparr>) = Returns 2147483647 (S0\<lparr>nextpid := - 2147483648\<rparr>)"
  by (simp add: allocpid_free S0_def)







section \<open>The reentrancy guard\<close>






section \<open>C5: no delivery while a handler is in flight\<close>





section \<open>wait\<close>

lemma kstate_eqI:
  assumes "length (procs s) = length (procs t)"
    and "\<And>q. q < length (procs s) \<Longrightarrow> the_proc s q = the_proc t q"
    and "initproc s = initproc t" "nextpid s = nextpid t" "pid_lock s = pid_lock t"
    and "wait_lock s = wait_lock t" "switches s = switches t"
  shows "s = (t :: 'pt kstate)"
proof -
  have "procs s = procs t"
    using assms(1,2) by (simp add: list_eq_iff_nth_eq the_proc_def)
  with assms(3-7) show ?thesis by simp
qed

lemma the_proc_upd:
  "p < length (procs s) \<Longrightarrow> the_proc (upd p f s) q = (if q = p then f (the_proc s p) else the_proc s q)"
  by simp

lemma noff_one:
  assumes "p < length (procs s)" "lock (the_proc s p)"
    and "\<forall>q < length (procs s). q \<noteq> p \<longrightarrow> \<not> lock (the_proc s q)"
    and "\<not> wait_lock s" "\<not> pid_lock s"
  shows "noff s = 1"
proof -
  have "{i. i < length (procs s) \<and> lock (procs s ! i)} = {p}"
    using assms(1-3) by (auto simp: the_proc_def)
  then have "length (filter lock (procs s)) = 1"
    by (simp add: length_filter_conv_card)
  with assms(4,5) show ?thesis by (simp add: noff_def)
qed

lemma wait_scan_result:
  assumes "\<forall>q \<in> set ps. q < length (procs s) \<and> \<not> lock (the_proc s q)" and "p < length (procs s)"
  shows "wait_scan E p addr ps hk s =
     (case find (\<lambda>q. parent (the_proc s q) = Some p \<and> state (the_proc s q) = ZOMBIE) ps of
        None \<Rightarrow> Returns (None, if \<exists>q \<in> set ps. parent (the_proc s q) = Some p then 1 else hk) s
      | Some z \<Rightarrow>
          (let co = (if addr \<noteq> 0
                     then copyout_int E (pagetable (the_proc s p)) addr (xstate (the_proc s z))
                     else (0, pagetable (the_proc s p)));
               s2 = upd p (\<lambda>r. r\<lparr>pagetable := snd co\<rparr>) s
           in if addr \<noteq> 0 \<and> fst co < 0
              then Returns (Some (- 1), 1) (s2\<lparr>wait_lock := False\<rparr>)
              else Returns (Some (pid (the_proc s z)), 1) ((freeproc z s2)\<lparr>wait_lock := False\<rparr>)))"
  using assms(1)
proof (induction ps arbitrary: hk)
  case Nil
  show ?case by simp
next
  case (Cons np nps)
  then have np: "np < length (procs s)" "\<not> lock (the_proc s np)" by simp_all
  have rel: "upd np (\<lambda>r. r\<lparr>lock := False\<rparr>) s = s"
    using np by (intro upd_idI) (simp add: lock_False_id)
  from Cons have IH: "wait_scan E p addr nps hk' s =
     (case find (\<lambda>q. parent (the_proc s q) = Some p \<and> state (the_proc s q) = ZOMBIE) nps of
        None \<Rightarrow> Returns (None, if \<exists>q \<in> set nps. parent (the_proc s q) = Some p then 1 else hk') s
      | Some z \<Rightarrow>
          (let co = (if addr \<noteq> 0
                     then copyout_int E (pagetable (the_proc s p)) addr (xstate (the_proc s z))
                     else (0, pagetable (the_proc s p)));
               s2 = upd p (\<lambda>r. r\<lparr>pagetable := snd co\<rparr>) s
           in if addr \<noteq> 0 \<and> fst co < 0
              then Returns (Some (- 1), 1) (s2\<lparr>wait_lock := False\<rparr>)
              else Returns (Some (pid (the_proc s z)), 1) ((freeproc z s2)\<lparr>wait_lock := False\<rparr>)))" for hk'
    by simp
  show ?case
  proof (cases "parent (the_proc s np) = Some p")
    case False
    then show ?thesis by (auto simp: IH split: option.split)
  next
    case child: True
    show ?thesis
    proof (cases "state (the_proc s np) = ZOMBIE")
      case False
      with child np show ?thesis
        by (auto simp: acquire_proc_free rel IH split: option.split)
    next
      case True
      have e1: "upd np (\<lambda>r. r\<lparr>lock := False\<rparr>)
                  (upd p (\<lambda>r. r\<lparr>pagetable := pt\<rparr>) (upd np (\<lambda>r. r\<lparr>lock := True\<rparr>) s))
                = upd p (\<lambda>r. r\<lparr>pagetable := pt\<rparr>) s" for pt
        using np assms(2)
        by (intro kstate_eqI) (auto simp: the_proc_upd lock_False_id)
      have e2: "upd np (\<lambda>r. r\<lparr>lock := False\<rparr>)
                  (freeproc np (upd p (\<lambda>r. r\<lparr>pagetable := pt\<rparr>) (upd np (\<lambda>r. r\<lparr>lock := True\<rparr>) s)))
                = freeproc np (upd p (\<lambda>r. r\<lparr>pagetable := pt\<rparr>) s)" for pt
        using np assms(2) unfolding freeproc_def
        by (intro kstate_eqI) (auto simp: the_proc_upd lock_False_id)
      have pp: "pagetable (the_proc (upd np (\<lambda>r. r\<lparr>lock := True\<rparr>) s) p) = pagetable (the_proc s p)"
        "xstate (the_proc (upd np (\<lambda>r. r\<lparr>lock := True\<rparr>) s) np) = xstate (the_proc s np)"
        "pid (the_proc (upd np (\<lambda>r. r\<lparr>lock := True\<rparr>) s) np) = pid (the_proc s np)"
        "state (the_proc (upd np (\<lambda>r. r\<lparr>lock := True\<rparr>) s) np) = state (the_proc s np)"
        using np by (simp_all add: the_proc_upd)
      from child True np show ?thesis
        by (simp add: acquire_proc_free pp Let_def e1 e2 del: upd_upd)
    qed
  qed
qed


lemma sleep_on_wait_lock:
  assumes lf: "locks_free s" and p: "p < length (procs s)"
  shows "sleep E p c WaitLock (s\<lparr>wait_lock := True\<rparr>) =
     (case resume E ((upd p (\<lambda>r. r\<lparr>lock := True, chan := c, state := SLEEPING\<rparr>) s)
                       \<lparr>switches := Suc (switches s)\<rparr>) of
        None \<Rightarrow> Switched ((upd p (\<lambda>r. r\<lparr>lock := True, chan := c, state := SLEEPING\<rparr>) s)
                       \<lparr>switches := Suc (switches s)\<rparr>)
      | Some s2 \<Rightarrow> acquire WaitLock (upd p (\<lambda>r. r\<lparr>chan := NullChan, lock := False\<rparr>) s2))"
proof -
  from lf have g: "\<not> wait_lock s" "\<not> pid_lock s" and fr: "\<forall>q < length (procs s). \<not> lock (the_proc s q)"
    by (simp_all add: locks_free_iff)
  define t where "t = upd p (\<lambda>r. r\<lparr>lock := True, chan := c, state := SLEEPING\<rparr>) s"
  have n: "noff t = 1"
    using p fr g by (intro noff_one [of p]) (simp_all add: t_def the_proc_upd)
  have h: "holding (ProcLock p) t" "state (the_proc t p) \<noteq> RUNNING"
    using p by (simp_all add: t_def)
  have e: "upd p (\<lambda>r. r\<lparr>chan := c, state := SLEEPING\<rparr>)
             (release WaitLock (upd p (\<lambda>r. r\<lparr>lock := True\<rparr>) (s\<lparr>wait_lock := True\<rparr>))) = t"
    using g by (simp add: t_def wait_lock_False_id)
  have a: "acquire (ProcLock p) (s\<lparr>wait_lock := True\<rparr>)
      = Returns () (upd p (\<lambda>r. r\<lparr>lock := True\<rparr>) (s\<lparr>wait_lock := True\<rparr>))"
    using fr p by (intro acquire_proc_free) simp
  have sw: "switches t = switches s" by (simp add: t_def)
  have sc: "sched E p t = (case resume E (t\<lparr>switches := Suc (switches s)\<rparr>) of
              None \<Rightarrow> Switched (t\<lparr>switches := Suc (switches s)\<rparr>) | Some s2 \<Rightarrow> Returns () s2)"
    using n h by (simp add: sched_def Let_def sw)
  show ?thesis
    unfolding sleep_def a obind_Returns e sc
    by (simp add: t_def obind_def split: option.split)
qed

lemma wait_unfold:
  assumes lf: "locks_free s" and p: "p < length (procs s)"
  shows "wait E p addr s =
     (case find (\<lambda>q. parent (the_proc s q) = Some p \<and> state (the_proc s q) = ZOMBIE)
             [0..<length (procs s)] of
        Some z \<Rightarrow>
          (let co = (if addr \<noteq> 0
                     then copyout_int E (pagetable (the_proc s p)) addr (xstate (the_proc s z))
                     else (0, pagetable (the_proc s p)));
               s2 = upd p (\<lambda>r. r\<lparr>pagetable := snd co\<rparr>) s
           in if addr \<noteq> 0 \<and> fst co < 0 then Some (Returns (- 1) s2)
              else Some (Returns (pid (the_proc s z)) (freeproc z s2)))
      | None \<Rightarrow>
          if (\<forall>q < length (procs s). parent (the_proc s q) \<noteq> Some p) \<or> killed (the_proc s p) \<noteq> 0
          then Some (Returns (- 1) s)
          else (case resume E ((upd p (\<lambda>r. r\<lparr>lock := True, chan := ProcChan p, state := SLEEPING\<rparr>) s)
                                 \<lparr>switches := Suc (switches s)\<rparr>) of
                  None \<Rightarrow> Some (Switched ((upd p (\<lambda>r. r\<lparr>lock := True, chan := ProcChan p,
                                                       state := SLEEPING\<rparr>) s)
                                            \<lparr>switches := Suc (switches s)\<rparr>))
                | Some s2 \<Rightarrow> wait E p addr (upd p (\<lambda>r. r\<lparr>chan := NullChan, lock := False\<rparr>) s2)))"
proof -
  from lf have g: "\<not> wait_lock s" "\<not> pid_lock s" and fr: "\<forall>q < length (procs s). \<not> lock (the_proc s q)"
    by (simp_all add: locks_free_iff)
  define s1 where "s1 = s\<lparr>wait_lock := True\<rparr>"
  have s1: "length (procs s1) = length (procs s)" "\<And>q. the_proc s1 q = the_proc s q"
    by (simp_all add: s1_def)
  have w: "wait E p addr s = wait_loop E p addr s1"
    using g by (simp add: wait_def acquire_wait_free s1_def)
  have pre: "\<forall>q \<in> set [0..<length (procs s1)]. q < length (procs s1) \<and> \<not> lock (the_proc s1 q)"
    using fr by (simp add: s1)
  note scan = wait_scan_result [OF pre, of p E addr 0, unfolded s1]
  have bk: "(upd p f s1)\<lparr>wait_lock := False\<rparr> = upd p f s"
     "(freeproc z (upd p f s1))\<lparr>wait_lock := False\<rparr> = freeproc z (upd p f s)" for f z
    using g by (simp_all add: s1_def freeproc_def wait_lock_False_id)
  have back0: "s1\<lparr>wait_lock := False\<rparr> = s"
    using g by (simp add: s1_def wait_lock_False_id)
  show ?thesis
  proof (cases "find (\<lambda>q. parent (the_proc s q) = Some p \<and> state (the_proc s q) = ZOMBIE)
             [0..<length (procs s)]")
    case (Some z)
    show ?thesis
      unfolding w
      by (subst wait_loop.simps) (simp add: scan [OF p] Some Let_def bk s1)
  next
    case None
    have sl: "sleep E p (ProcChan p) WaitLock s1 =
     (case resume E ((upd p (\<lambda>r. r\<lparr>lock := True, chan := ProcChan p, state := SLEEPING\<rparr>) s)
                       \<lparr>switches := Suc (switches s)\<rparr>) of
        None \<Rightarrow> Switched ((upd p (\<lambda>r. r\<lparr>lock := True, chan := ProcChan p, state := SLEEPING\<rparr>) s)
                       \<lparr>switches := Suc (switches s)\<rparr>)
      | Some s2 \<Rightarrow> acquire WaitLock (upd p (\<lambda>r. r\<lparr>chan := NullChan, lock := False\<rparr>) s2))"
      unfolding s1_def by (rule sleep_on_wait_lock [OF lf p])
    show ?thesis
      unfolding w
      apply (subst wait_loop.simps)
      apply (simp add: scan [OF p] None s1 back0 sl)
      apply (auto simp: wait_def split: option.split outcome.split)
      done
  qed
qed


lemma wait_reaps:
  assumes lf: "locks_free s" and p: "p < length (procs s)"
    and z: "z < length (procs s)" "parent (the_proc s z) = Some p" "state (the_proc s z) = ZOMBIE"
    and first: "\<forall>q<z. \<not> (parent (the_proc s q) = Some p \<and> state (the_proc s q) = ZOMBIE)"
    and ok: "addr = 0 \<or> 0 \<le> fst (copyout_int E (pagetable (the_proc s p)) addr (xstate (the_proc s z)))"
  shows "wait E p addr s = Some (Returns (pid (the_proc s z))
           (freeproc z (upd p (\<lambda>r. r\<lparr>pagetable :=
               (if addr \<noteq> 0
                then snd (copyout_int E (pagetable (the_proc s p)) addr (xstate (the_proc s z)))
                else pagetable (the_proc s p))\<rparr>) s)))"
proof -
  have f: "find (\<lambda>q. parent (the_proc s q) = Some p \<and> state (the_proc s q) = ZOMBIE)
             [0..<length (procs s)] = Some z"
    using z first by (intro find_upt_first) simp_all
  from ok show ?thesis
    unfolding wait_unfold [OF lf p] f by (auto simp: Let_def)
qed

lemma wait_copyout_fails:
  assumes lf: "locks_free s" and p: "p < length (procs s)"
    and z: "z < length (procs s)" "parent (the_proc s z) = Some p" "state (the_proc s z) = ZOMBIE"
    and first: "\<forall>q<z. \<not> (parent (the_proc s q) = Some p \<and> state (the_proc s q) = ZOMBIE)"
    and bad: "addr \<noteq> 0" "fst (copyout_int E (pagetable (the_proc s p)) addr (xstate (the_proc s z))) < 0"
  shows "wait E p addr s = Some (Returns (- 1)
           (upd p (\<lambda>r. r\<lparr>pagetable :=
               snd (copyout_int E (pagetable (the_proc s p)) addr (xstate (the_proc s z)))\<rparr>) s))"
proof -
  have f: "find (\<lambda>q. parent (the_proc s q) = Some p \<and> state (the_proc s q) = ZOMBIE)
             [0..<length (procs s)] = Some z"
    using z first by (intro find_upt_first) simp_all
  from bad show ?thesis
    unfolding wait_unfold [OF lf p] f by (simp add: Let_def)
qed

lemma wait_no_zombie:
  assumes lf: "locks_free s" and p: "p < length (procs s)"
    and nz: "\<forall>q < length (procs s). \<not> (parent (the_proc s q) = Some p \<and> state (the_proc s q) = ZOMBIE)"
  shows "wait E p addr s =
     (if (\<forall>q < length (procs s). parent (the_proc s q) \<noteq> Some p) \<or> killed (the_proc s p) \<noteq> 0
      then Some (Returns (- 1) s)
      else (case resume E ((upd p (\<lambda>r. r\<lparr>lock := True, chan := ProcChan p, state := SLEEPING\<rparr>) s)
                             \<lparr>switches := Suc (switches s)\<rparr>) of
              None \<Rightarrow> Some (Switched ((upd p (\<lambda>r. r\<lparr>lock := True, chan := ProcChan p,
                                                   state := SLEEPING\<rparr>) s)
                                        \<lparr>switches := Suc (switches s)\<rparr>))
            | Some s2 \<Rightarrow> wait E p addr (upd p (\<lambda>r. r\<lparr>chan := NullChan, lock := False\<rparr>) s2)))"
proof -
  have f: "find (\<lambda>q. parent (the_proc s q) = Some p \<and> state (the_proc s q) = ZOMBIE)
             [0..<length (procs s)] = None"
    using nz by (intro find_upt_none) simp
  show ?thesis
    unfolding wait_unfold [OF lf p] f by simp
qed

lemma S0_family:
  "parent (the_proc S0 0) = None" "parent (the_proc S0 1) = Some 0"
  "parent (the_proc S0 2) = Some 1" "parent (the_proc S0 3) = None"
  "state (the_proc S0 0) = SLEEPING" "state (the_proc S0 1) = RUNNING"
  "state (the_proc S0 2) = RUNNABLE" "state (the_proc S0 3) = UNUSED"
  "killed (the_proc S0 1) = 0" "killed (the_proc S0 2) = 0"
  unfolding S0_slots by (simp_all add: P_init_def P_sh_def P_kid_def P_free_def)

lemmas S0_family_Suc = S0_family [unfolded One_nat_def]

lemma S_zombie_family:
  "parent (the_proc S_zombie 0) = None" "parent (the_proc S_zombie 1) = Some 0"
  "parent (the_proc S_zombie 2) = Some 1" "parent (the_proc S_zombie 3) = None"
  "state (the_proc S_zombie 2) = ZOMBIE" "pid (the_proc S_zombie 2) = 3"
  "xstate (the_proc S_zombie 2) = 42" "pagetable (the_proc S_zombie 1) = Some ()"
  unfolding S_zombie_slots by (simp_all add: P_init_def P_sh_def P_kid_def P_free_def)

lemmas S_zombie_family_Suc = S_zombie_family [unfolded One_nat_def]

lemma S_killed_slots:
  "length (procs S_killed) = 4" "the_proc S_killed 0 = P_init"
  "the_proc S_killed 1 = P_sh\<lparr>killed := 1\<rparr>"
  "the_proc S_killed 2 = P_kid" "the_proc S_killed 3 = P_free"
  by (simp_all add: S_killed_def S0_slots)

lemma S_killed_family:
  "parent (the_proc S_killed 0) = None" "parent (the_proc S_killed 1) = Some 0"
  "parent (the_proc S_killed 2) = Some 1" "parent (the_proc S_killed 3) = None"
  "state (the_proc S_killed 2) = RUNNABLE" "killed (the_proc S_killed 1) = 1"
  unfolding S_killed_slots by (simp_all add: P_init_def P_sh_def P_kid_def P_free_def)

lemmas S_killed_family_Suc = S_killed_family [unfolded One_nat_def]

lemma locks_free_S_killed: "locks_free S_killed"
  unfolding S_killed_def
  by (rule locks_free_upd [OF locks_free_S0]) (simp_all add: S0_slots P_sh_def P_free_def)

lemma all_less_4: "(\<forall>q<4. P (q::nat)) \<longleftrightarrow> P 0 \<and> P 1 \<and> P 2 \<and> P 3"
  by (auto dest!: less_4_cases)

lemma all_less_2: "(\<forall>q<2. P (q::nat)) \<longleftrightarrow> P 0 \<and> P 1"
  by (auto simp: less_Suc_eq numeral_2_eq_2)

section \<open>C8: the outcomes of wait\<close>

text \<open>
  Claim C8 says that \<^verbatim>\<open>wait\<close>, whenever some child is \<^verbatim>\<open>ZOMBIE\<close>, copies out the status,
  frees the child and returns its pid.  That fails when the copy-out fails: for the
  shell of the concrete table with its child a zombie and a collaborator whose
  \<^verbatim>\<open>copyout\<close> fails, \<^verbatim>\<open>wait\<close> returns \<open>-1\<close> and the table is unchanged, the child still
  a \<^verbatim>\<open>ZOMBIE\<close> with its pid.
\<close>

theorem wait_zombie_child_not_reaped:
  "parent (the_proc S_zombie 2) = Some 1 \<and> state (the_proc S_zombie 2) = ZOMBIE
   \<and> pid (the_proc S_zombie 2) = 3
   \<and> wait E_cofail 1 0x2000 S_zombie = Some (Returns (- 1) S_zombie)"
proof -
  have len: "1 < length (procs S_zombie)" "2 < length (procs S_zombie)"
    by (simp_all add: S_zombie_slots)
  have first: "\<forall>q<2. \<not> (parent (the_proc S_zombie q) = Some 1 \<and> state (the_proc S_zombie q) = ZOMBIE)"
    by (simp add: all_less_2 S_zombie_family S_zombie_family_Suc)
  have co: "copyout_int E_cofail pt a v = (- 1, pt)" for pt a v
    by (simp add: E_cofail_def E0_def)
  have same: "upd 1 (\<lambda>r. r\<lparr>pagetable := pagetable (the_proc S_zombie 1)\<rparr>) S_zombie = S_zombie"
    by (rule upd_idI) simp
  have "wait E_cofail 1 0x2000 S_zombie = Some (Returns (- 1)
           (upd 1 (\<lambda>r. r\<lparr>pagetable := snd (copyout_int E_cofail (pagetable (the_proc S_zombie 1)) 0x2000
                (xstate (the_proc S_zombie 2)))\<rparr>) S_zombie))"
    by (rule wait_copyout_fails [OF locks_free_S_zombie len(1) len(2) _ _ first])
       (simp_all add: S_zombie_family co)
  then have "wait E_cofail 1 0x2000 S_zombie = Some (Returns (- 1) S_zombie)"
    unfolding co snd_conv same .
  then show ?thesis by (simp add: S_zombie_family)
qed


text \<open>
  Claim C8 as amended.  \<^verbatim>\<open>wait\<close>, called by \<open>p\<close> with no lock held:
  \<^item> returns \<open>-1\<close>, changing nothing, when no slot has \<open>p\<close> as parent;
  \<^item> returns \<open>-1\<close>, changing nothing, when \<open>p\<close> is marked killed and no child of \<open>p\<close> is
    \<^verbatim>\<open>ZOMBIE\<close>;
  \<^item> when some child is \<^verbatim>\<open>ZOMBIE\<close> and \<open>z\<close> is the first such slot, and no output address
    was given or the copy-out of \<open>z\<close>'s exit status succeeds, returns \<open>z\<close>'s pid with the
    slot freed (\<^verbatim>\<open>UNUSED\<close>), also when \<open>p\<close> is marked killed;
  \<^item> otherwise (children, none \<^verbatim>\<open>ZOMBIE\<close>, not killed) goes to sleep on its own record as
    the channel, and when it is switched back in runs \<^verbatim>\<open>wait\<close> again on the state it
    finds.
\<close>

theorem wait_outcomes:
  assumes lf: "locks_free s" and p: "p < length (procs s)"
  shows "((\<forall>q < length (procs s). parent (the_proc s q) \<noteq> Some p)
            \<longrightarrow> wait E p addr s = Some (Returns (- 1) s))
     \<and> ((\<forall>q < length (procs s). \<not> (parent (the_proc s q) = Some p \<and> state (the_proc s q) = ZOMBIE))
            \<and> killed (the_proc s p) \<noteq> 0
            \<longrightarrow> wait E p addr s = Some (Returns (- 1) s))
     \<and> (z < length (procs s) \<and> parent (the_proc s z) = Some p \<and> state (the_proc s z) = ZOMBIE
            \<and> (\<forall>q<z. \<not> (parent (the_proc s q) = Some p \<and> state (the_proc s q) = ZOMBIE))
            \<and> (addr = 0 \<or> 0 \<le> fst (copyout_int E (pagetable (the_proc s p)) addr (xstate (the_proc s z))))
            \<longrightarrow> wait E p addr s = Some (Returns (pid (the_proc s z))
                   (freeproc z (upd p (\<lambda>r. r\<lparr>pagetable :=
                       (if addr \<noteq> 0
                        then snd (copyout_int E (pagetable (the_proc s p)) addr (xstate (the_proc s z)))
                        else pagetable (the_proc s p))\<rparr>) s)))
              \<and> state (the_proc (freeproc z (upd p (\<lambda>r. r\<lparr>pagetable :=
                       (if addr \<noteq> 0
                        then snd (copyout_int E (pagetable (the_proc s p)) addr (xstate (the_proc s z)))
                        else pagetable (the_proc s p))\<rparr>) s)) z) = UNUSED)
     \<and> ((\<exists>q < length (procs s). parent (the_proc s q) = Some p)
            \<and> (\<forall>q < length (procs s). \<not> (parent (the_proc s q) = Some p \<and> state (the_proc s q) = ZOMBIE))
            \<and> killed (the_proc s p) = 0
            \<longrightarrow> wait E p addr s =
                 (case resume E ((upd p (\<lambda>r. r\<lparr>lock := True, chan := ProcChan p, state := SLEEPING\<rparr>) s)
                                   \<lparr>switches := Suc (switches s)\<rparr>) of
                    None \<Rightarrow> Some (Switched ((upd p (\<lambda>r. r\<lparr>lock := True, chan := ProcChan p,
                                                         state := SLEEPING\<rparr>) s)
                                              \<lparr>switches := Suc (switches s)\<rparr>))
                  | Some s2 \<Rightarrow> wait E p addr (upd p (\<lambda>r. r\<lparr>chan := NullChan, lock := False\<rparr>) s2)))"
proof -
  have 1: "(\<forall>q < length (procs s). parent (the_proc s q) \<noteq> Some p)
            \<longrightarrow> wait E p addr s = Some (Returns (- 1) s)"
    by (auto simp: wait_no_zombie [OF lf p])
  have 2: "(\<forall>q < length (procs s). \<not> (parent (the_proc s q) = Some p \<and> state (the_proc s q) = ZOMBIE))
            \<and> killed (the_proc s p) \<noteq> 0
            \<longrightarrow> wait E p addr s = Some (Returns (- 1) s)"
    by (auto simp: wait_no_zombie [OF lf p])
  have 3: "z < length (procs s) \<and> parent (the_proc s z) = Some p \<and> state (the_proc s z) = ZOMBIE
            \<and> (\<forall>q<z. \<not> (parent (the_proc s q) = Some p \<and> state (the_proc s q) = ZOMBIE))
            \<and> (addr = 0 \<or> 0 \<le> fst (copyout_int E (pagetable (the_proc s p)) addr (xstate (the_proc s z))))
            \<longrightarrow> wait E p addr s = Some (Returns (pid (the_proc s z))
                   (freeproc z (upd p (\<lambda>r. r\<lparr>pagetable :=
                       (if addr \<noteq> 0
                        then snd (copyout_int E (pagetable (the_proc s p)) addr (xstate (the_proc s z)))
                        else pagetable (the_proc s p))\<rparr>) s)))
              \<and> state (the_proc (freeproc z (upd p (\<lambda>r. r\<lparr>pagetable :=
                       (if addr \<noteq> 0
                        then snd (copyout_int E (pagetable (the_proc s p)) addr (xstate (the_proc s z)))
                        else pagetable (the_proc s p))\<rparr>) s)) z) = UNUSED"
  proof (intro impI conjI)
    assume h: "z < length (procs s) \<and> parent (the_proc s z) = Some p \<and> state (the_proc s z) = ZOMBIE
            \<and> (\<forall>q<z. \<not> (parent (the_proc s q) = Some p \<and> state (the_proc s q) = ZOMBIE))
            \<and> (addr = 0 \<or> 0 \<le> fst (copyout_int E (pagetable (the_proc s p)) addr (xstate (the_proc s z))))"
    then show "wait E p addr s = Some (Returns (pid (the_proc s z))
                   (freeproc z (upd p (\<lambda>r. r\<lparr>pagetable :=
                       (if addr \<noteq> 0
                        then snd (copyout_int E (pagetable (the_proc s p)) addr (xstate (the_proc s z)))
                        else pagetable (the_proc s p))\<rparr>) s)))"
      by (intro wait_reaps [OF lf p]) simp_all
    from h show "state (the_proc (freeproc z (upd p (\<lambda>r. r\<lparr>pagetable :=
                       (if addr \<noteq> 0
                        then snd (copyout_int E (pagetable (the_proc s p)) addr (xstate (the_proc s z)))
                        else pagetable (the_proc s p))\<rparr>) s)) z) = UNUSED"
      by (simp add: freeproc_def)
  qed
  have 4: "(\<exists>q < length (procs s). parent (the_proc s q) = Some p)
            \<and> (\<forall>q < length (procs s). \<not> (parent (the_proc s q) = Some p \<and> state (the_proc s q) = ZOMBIE))
            \<and> killed (the_proc s p) = 0
            \<longrightarrow> wait E p addr s =
                 (case resume E ((upd p (\<lambda>r. r\<lparr>lock := True, chan := ProcChan p, state := SLEEPING\<rparr>) s)
                                   \<lparr>switches := Suc (switches s)\<rparr>) of
                    None \<Rightarrow> Some (Switched ((upd p (\<lambda>r. r\<lparr>lock := True, chan := ProcChan p,
                                                         state := SLEEPING\<rparr>) s)
                                              \<lparr>switches := Suc (switches s)\<rparr>))
                  | Some s2 \<Rightarrow> wait E p addr (upd p (\<lambda>r. r\<lparr>chan := NullChan, lock := False\<rparr>) s2))"
    by (auto simp: wait_no_zombie [OF lf p])
  from 1 2 3 4 show ?thesis by blast
qed


text \<open>The four cases at the concrete table: the child (no children of its own),
  the killed shell, the shell with a zombie child, and the shell with a runnable child
  (it sleeps; the collaborators \<open>E0\<close> never switch it back in).\<close>

theorem wait_outcomes_witness:
  "locks_free S0 \<and> locks_free S_killed \<and> locks_free S_zombie
   \<and> 2 < length (procs S0) \<and> 1 < length (procs S_killed) \<and> 1 < length (procs S_zombie)
   \<and> wait E0 2 0 S0 = Some (Returns (- 1) S0)
   \<and> wait E0 1 0 S_killed = Some (Returns (- 1) S_killed)
   \<and> (\<exists>s'. wait E0 1 0x2000 S_zombie = Some (Returns 3 s') \<and> state (the_proc s' 2) = UNUSED)
   \<and> wait E0 1 0 S0
       = Some (Switched ((upd 1 (\<lambda>r. r\<lparr>lock := True, chan := ProcChan 1, state := SLEEPING\<rparr>) S0)
                           \<lparr>switches := Suc (switches S0)\<rparr>))"
proof -
  have len: "2 < length (procs S0)" "1 < length (procs S0)" "1 < length (procs S_killed)"
    "1 < length (procs S_zombie)"
    by (simp_all add: S0_slots S_killed_slots S_zombie_slots)
  have a: "\<forall>q < length (procs S0). parent (the_proc S0 q) \<noteq> Some 2"
    by (simp add: S0_slots(1) all_less_4 S0_family S0_family_Suc)
  from wait_outcomes [OF locks_free_S0 len(1), of E0 0] a
  have 1: "wait E0 2 0 S0 = Some (Returns (- 1) S0)"
    by blast
  have b: "(\<forall>q < length (procs S_killed). \<not> (parent (the_proc S_killed q) = Some 1
               \<and> state (the_proc S_killed q) = ZOMBIE)) \<and> killed (the_proc S_killed 1) \<noteq> 0"
    by (simp add: S_killed_slots(1) all_less_4 S_killed_family S_killed_family_Suc)
  from wait_outcomes [OF locks_free_S_killed len(3), of E0 0] b
  have 2: "wait E0 1 0 S_killed = Some (Returns (- 1) S_killed)"
    by blast
  have c: "2 < length (procs S_zombie) \<and> parent (the_proc S_zombie 2) = Some 1
            \<and> state (the_proc S_zombie 2) = ZOMBIE
            \<and> (\<forall>q<2. \<not> (parent (the_proc S_zombie q) = Some 1 \<and> state (the_proc S_zombie q) = ZOMBIE))
            \<and> ((0x2000 :: 64 word) = 0 \<or> 0 \<le> fst (copyout_int E0 (pagetable (the_proc S_zombie 1)) 0x2000
                    (xstate (the_proc S_zombie 2))))"
    by (simp add: S_zombie_slots(1) all_less_2 S_zombie_family S_zombie_family_Suc E0_def)
  from wait_outcomes [OF locks_free_S_zombie len(4), where z = 2 and E = E0 and addr = "0x2000"] c
  have "\<exists>s'. wait E0 1 0x2000 S_zombie = Some (Returns (pid (the_proc S_zombie 2)) s')
           \<and> state (the_proc s' 2) = UNUSED"
    by blast
  then have 3: "\<exists>s'. wait E0 1 0x2000 S_zombie = Some (Returns 3 s') \<and> state (the_proc s' 2) = UNUSED"
    by (simp only: S_zombie_family)
  have d: "(\<exists>q < length (procs S0). parent (the_proc S0 q) = Some 1)
            \<and> (\<forall>q < length (procs S0). \<not> (parent (the_proc S0 q) = Some 1 \<and> state (the_proc S0 q) = ZOMBIE))
            \<and> killed (the_proc S0 1) = 0"
  proof -
    have "2 < length (procs S0) \<and> parent (the_proc S0 2) = Some 1"
      by (simp add: S0_slots(1) S0_family)
    then have "\<exists>q < length (procs S0). parent (the_proc S0 q) = Some 1" by blast
    moreover have "\<forall>q < length (procs S0). \<not> (parent (the_proc S0 q) = Some 1 \<and> state (the_proc S0 q) = ZOMBIE)"
      by (simp add: S0_slots(1) all_less_4 S0_family S0_family_Suc)
    ultimately show ?thesis using S0_family(9) by blast
  qed
  have r: "resume E0 t = None" for t by (simp add: E0_def)
  from wait_outcomes [OF locks_free_S0 len(2), of E0 0] d
  have 4: "wait E0 1 0 S0
       = Some (Switched ((upd 1 (\<lambda>r. r\<lparr>lock := True, chan := ProcChan 1, state := SLEEPING\<rparr>) S0)
                           \<lparr>switches := Suc (switches S0)\<rparr>))"
    unfolding r by simp
  from locks_free_S0 locks_free_S_killed locks_free_S_zombie len 1 2 3 4 show ?thesis
    by blast
qed

section \<open>C10: a failed copy-out leaves the zombie\<close>

text \<open>
  Claim C10.  If \<^verbatim>\<open>wait\<close> finds a \<^verbatim>\<open>ZOMBIE\<close> child \<open>z\<close> (the first in the table) and the
  copy-out of its exit status to the non-zero address fails, \<^verbatim>\<open>wait\<close> returns \<open>-1\<close>, no
  lock is left held, and \<open>z\<close> is still a \<^verbatim>\<open>ZOMBIE\<close> child of the caller with its pid
  and exit status; a later \<^verbatim>\<open>wait\<close> without address, or whose copy-out succeeds, returns
  \<open>z\<close>'s pid and frees the slot.
\<close>

theorem wait_failed_copyout_keeps_zombie:
  assumes lf: "locks_free s" and p: "p < length (procs s)"
    and z: "z < length (procs s)" "parent (the_proc s z) = Some p" "state (the_proc s z) = ZOMBIE"
    and first: "\<forall>q<z. \<not> (parent (the_proc s q) = Some p \<and> state (the_proc s q) = ZOMBIE)"
    and bad: "addr \<noteq> 0" "fst (copyout_int E (pagetable (the_proc s p)) addr (xstate (the_proc s z))) < 0"
  shows "\<exists>s'. wait E p addr s = Some (Returns (- 1) s') \<and> locks_free s'
     \<and> state (the_proc s' z) = ZOMBIE \<and> pid (the_proc s' z) = pid (the_proc s z)
     \<and> xstate (the_proc s' z) = xstate (the_proc s z) \<and> parent (the_proc s' z) = Some p
     \<and> (\<forall>E2 addr2.
           addr2 = 0 \<or> 0 \<le> fst (copyout_int E2 (pagetable (the_proc s' p)) addr2 (xstate (the_proc s z)))
           \<longrightarrow> (\<exists>s''. wait E2 p addr2 s' = Some (Returns (pid (the_proc s z)) s'')
                    \<and> state (the_proc s'' z) = UNUSED))"
proof -
  define s' where "s' = upd p (\<lambda>r. r\<lparr>pagetable :=
               snd (copyout_int E (pagetable (the_proc s p)) addr (xstate (the_proc s z)))\<rparr>) s"
  have w: "wait E p addr s = Some (Returns (- 1) s')"
    unfolding s'_def by (rule wait_copyout_fails [OF lf p z first bad])
  have lf': "locks_free s'"
    unfolding s'_def using locks_free_proc [OF lf p] by (intro locks_free_upd [OF lf p]) simp
  have len: "length (procs s') = length (procs s)" by (simp add: s'_def)
  have same: "state (the_proc s' q) = state (the_proc s q)" "pid (the_proc s' q) = pid (the_proc s q)"
    "xstate (the_proc s' q) = xstate (the_proc s q)" "parent (the_proc s' q) = parent (the_proc s q)" for q
    using p by (simp_all add: s'_def the_proc_upd)
  have later: "\<exists>s''. wait E2 p addr2 s' = Some (Returns (pid (the_proc s z)) s'')
                    \<and> state (the_proc s'' z) = UNUSED"
    if ok: "addr2 = 0 \<or> 0 \<le> fst (copyout_int E2 (pagetable (the_proc s' p)) addr2 (xstate (the_proc s z)))"
    for E2 addr2
  proof -
    from z p have z': "z < length (procs s')" "p < length (procs s')" by (simp_all add: len)
    have "wait E2 p addr2 s' = Some (Returns (pid (the_proc s' z))
           (freeproc z (upd p (\<lambda>r. r\<lparr>pagetable :=
               (if addr2 \<noteq> 0
                then snd (copyout_int E2 (pagetable (the_proc s' p)) addr2 (xstate (the_proc s' z)))
                else pagetable (the_proc s' p))\<rparr>) s')))"
      using z first ok by (intro wait_reaps [OF lf' z'(2) z'(1)]) (simp_all add: same)
    moreover have "state (the_proc (freeproc z (upd p f s')) z) = UNUSED" for f
      using z'(1) by (simp add: freeproc_def)
    ultimately show ?thesis by (simp add: same)
  qed
  from w lf' z later show ?thesis
    by (intro exI [of _ s']) (simp add: same)
qed

text \<open>At the concrete table with the shell's child a zombie: the first \<^verbatim>\<open>wait\<close>
  fails on the copy-out and leaves pid 3 with status 42; a second \<^verbatim>\<open>wait\<close> reaps it.\<close>

theorem wait_failed_copyout_keeps_zombie_witness:
  "locks_free S_zombie \<and> 1 < length (procs S_zombie) \<and> 2 < length (procs S_zombie)
   \<and> parent (the_proc S_zombie 2) = Some 1 \<and> state (the_proc S_zombie 2) = ZOMBIE
   \<and> fst (copyout_int E_cofail (pagetable (the_proc S_zombie 1)) 0x2000 (xstate (the_proc S_zombie 2))) < 0
   \<and> (\<exists>s'. wait E_cofail 1 0x2000 S_zombie = Some (Returns (- 1) s')
         \<and> state (the_proc s' 2) = ZOMBIE \<and> pid (the_proc s' 2) = 3 \<and> xstate (the_proc s' 2) = 42
         \<and> (\<exists>s''. wait E0 1 0 s' = Some (Returns 3 s'') \<and> state (the_proc s'' 2) = UNUSED))"
proof -
  have len: "1 < length (procs S_zombie)" "2 < length (procs S_zombie)"
    by (simp_all add: S_zombie_slots)
  have first: "\<forall>q<2. \<not> (parent (the_proc S_zombie q) = Some 1 \<and> state (the_proc S_zombie q) = ZOMBIE)"
    by (simp add: all_less_2 S_zombie_family S_zombie_family_Suc)
  have bad: "(0x2000 :: 64 word) \<noteq> 0"
    "fst (copyout_int E_cofail (pagetable (the_proc S_zombie 1)) 0x2000 (xstate (the_proc S_zombie 2))) < 0"
    by (simp_all add: E_cofail_def E0_def)
  from wait_failed_copyout_keeps_zombie [OF locks_free_S_zombie len S_zombie_family(3,5) first bad]
  obtain s' where a: "wait E_cofail 1 0x2000 S_zombie = Some (Returns (- 1) s')"
     "state (the_proc s' 2) = ZOMBIE" "pid (the_proc s' 2) = pid (the_proc S_zombie 2)"
     "xstate (the_proc s' 2) = xstate (the_proc S_zombie 2)"
    and l: "\<forall>E2 addr2.
           addr2 = 0 \<or> 0 \<le> fst (copyout_int E2 (pagetable (the_proc s' 1)) addr2 (xstate (the_proc S_zombie 2)))
           \<longrightarrow> (\<exists>s''. wait E2 1 addr2 s' = Some (Returns (pid (the_proc S_zombie 2)) s'')
                    \<and> state (the_proc s'' 2) = UNUSED)"
    by blast
  from l have "\<exists>s''. wait E0 1 0 s' = Some (Returns (pid (the_proc S_zombie 2)) s'')
                    \<and> state (the_proc s'' 2) = UNUSED"
    by blast
  with a have "\<exists>s'. wait E_cofail 1 0x2000 S_zombie = Some (Returns (- 1) s')
         \<and> state (the_proc s' 2) = ZOMBIE \<and> pid (the_proc s' 2) = 3 \<and> xstate (the_proc s' 2) = 42
         \<and> (\<exists>s''. wait E0 1 0 s' = Some (Returns 3 s'') \<and> state (the_proc s'' 2) = UNUSED)"
    unfolding S_zombie_family by blast
  with locks_free_S_zombie len S_zombie_family(3,5) bad(2) show ?thesis by blast
qed

section \<open>wakeup, reparent and exit\<close>

lemma wakeup_loop_result:
  assumes "distinct ps" "\<forall>q \<in> set ps. q < length (procs s)"
    and "\<forall>q < length (procs s). \<not> lock (the_proc s q)"
  shows "\<exists>s'. wakeup_loop me c ps s = Returns () s'
      \<and> length (procs s') = length (procs s)
      \<and> initproc s' = initproc s \<and> nextpid s' = nextpid s \<and> pid_lock s' = pid_lock s
      \<and> wait_lock s' = wait_lock s \<and> switches s' = switches s
      \<and> (\<forall>q. the_proc s' q =
            (if q \<in> set ps \<and> Some q \<noteq> me \<and> state (the_proc s q) = SLEEPING \<and> chan (the_proc s q) = c
             then (the_proc s q)\<lparr>state := RUNNABLE\<rparr> else the_proc s q))"
  using assms
proof (induction ps arbitrary: s)
  case Nil
  show ?case by simp
next
  case (Cons p ps)
  then have p: "p < length (procs s)" "\<not> lock (the_proc s p)" "p \<notin> set ps" by simp_all
  show ?case
  proof (cases "Some p \<noteq> me")
    case False
    with Cons.IH [of s] Cons.prems p(3) show ?thesis
      by (auto split: if_splits)
  next
    case True
    define t where "t = (if state (the_proc s p) = SLEEPING \<and> chan (the_proc s p) = c
                         then upd p (\<lambda>r. r\<lparr>state := RUNNABLE\<rparr>) s else s)"
    have e1: "release (ProcLock p)
               (upd p (\<lambda>r. r\<lparr>state := RUNNABLE\<rparr>) (upd p (\<lambda>r. r\<lparr>lock := True\<rparr>) s)) = t"
      if "state (the_proc s p) = SLEEPING \<and> chan (the_proc s p) = c"
      using p that unfolding t_def
      by (intro kstate_eqI) (auto simp: the_proc_upd lock_False_id)
    have e2: "release (ProcLock p) (upd p (\<lambda>r. r\<lparr>lock := True\<rparr>) s) = t"
      if "\<not> (state (the_proc s p) = SLEEPING \<and> chan (the_proc s p) = c)"
      using p that unfolding t_def
      by (intro kstate_eqI) (auto simp: the_proc_upd lock_False_id)
    have step: "wakeup_loop me c (p # ps) s = wakeup_loop me c ps t"
    proof (cases "state (the_proc s p) = SLEEPING \<and> chan (the_proc s p) = c")
      case c: True
      with True p show ?thesis
        by (simp add: acquire_proc_free e1 [OF c] del: release_proc upd_upd)
    next
      case c: False
      with True p show ?thesis
        by (auto simp add: acquire_proc_free e2 [OF c] simp del: release_proc upd_upd)
    qed
    have tl: "length (procs t) = length (procs s)" by (simp add: t_def)
    have tg: "initproc t = initproc s" "nextpid t = nextpid s" "pid_lock t = pid_lock s"
      "wait_lock t = wait_lock s" "switches t = switches s"
      by (simp_all add: t_def)
    have tp: "the_proc t q = (if q = p \<and> state (the_proc s p) = SLEEPING \<and> chan (the_proc s p) = c
                then (the_proc s p)\<lparr>state := RUNNABLE\<rparr> else the_proc s q)" for q
      using p by (simp add: t_def the_proc_upd)
    have "\<forall>q < length (procs t). \<not> lock (the_proc t q)"
      using Cons.prems(3) by (simp add: tl tp)
    with Cons.IH [of t] Cons.prems tl
    obtain s' where s': "wakeup_loop me c ps t = Returns () s'"
      "length (procs s') = length (procs t)"
      "initproc s' = initproc t \<and> nextpid s' = nextpid t \<and> pid_lock s' = pid_lock t
         \<and> wait_lock s' = wait_lock t \<and> switches s' = switches t"
      "\<forall>q. the_proc s' q =
            (if q \<in> set ps \<and> Some q \<noteq> me \<and> state (the_proc t q) = SLEEPING \<and> chan (the_proc t q) = c
             then (the_proc t q)\<lparr>state := RUNNABLE\<rparr> else the_proc t q)"
      by auto
    have "\<forall>q. the_proc s' q =
            (if q \<in> set (p # ps) \<and> Some q \<noteq> me \<and> state (the_proc s q) = SLEEPING \<and> chan (the_proc s q) = c
             then (the_proc s q)\<lparr>state := RUNNABLE\<rparr> else the_proc s q)"
      using s'(4) p(3) True by (auto simp: tp)
    with s'(1-3) step tl tg show ?thesis by simp
  qed
qed

lemma wakeup_result:
  assumes "\<forall>q < length (procs s). \<not> lock (the_proc s q)"
  shows "\<exists>s'. wakeup me c s = Returns () s'
      \<and> length (procs s') = length (procs s)
      \<and> initproc s' = initproc s \<and> nextpid s' = nextpid s \<and> pid_lock s' = pid_lock s
      \<and> wait_lock s' = wait_lock s \<and> switches s' = switches s
      \<and> (\<forall>q < length (procs s). the_proc s' q =
            (if Some q \<noteq> me \<and> state (the_proc s q) = SLEEPING \<and> chan (the_proc s q) = c
             then (the_proc s q)\<lparr>state := RUNNABLE\<rparr> else the_proc s q))"
proof -
  from wakeup_loop_result [of "[0..<length (procs s)]" s me c] assms
  show ?thesis unfolding wakeup_def by auto
qed


lemma reparent_loop_result:
  assumes "distinct ps" "\<forall>q \<in> set ps. q < length (procs s)"
    and "\<forall>q < length (procs s). \<not> lock (the_proc s q)"
  shows "\<exists>s'. reparent_loop me p ps s = Returns () s'
      \<and> length (procs s') = length (procs s)
      \<and> initproc s' = initproc s \<and> nextpid s' = nextpid s \<and> pid_lock s' = pid_lock s
      \<and> wait_lock s' = wait_lock s \<and> switches s' = switches s
      \<and> (\<forall>q < length (procs s). the_proc s' q = (the_proc s q)
            \<lparr>parent := (if q \<in> set ps \<and> parent (the_proc s q) = Some p then initproc s
                        else parent (the_proc s q)),
             state := (if (\<exists>j \<in> set ps. parent (the_proc s j) = Some p) \<and> Some q \<noteq> me
                           \<and> state (the_proc s q) = SLEEPING
                           \<and> chan (the_proc s q) = ptr_chan (initproc s)
                       then RUNNABLE else state (the_proc s q))\<rparr>)"
  using assms
proof (induction ps arbitrary: s)
  case Nil
  show ?case by simp
next
  case (Cons pp ps)
  then have pp: "pp < length (procs s)" "pp \<notin> set ps" by simp_all
  show ?case
  proof (cases "parent (the_proc s pp) = Some p")
    case False
    from Cons.IH [of s] Cons.prems
    obtain s' where s': "reparent_loop me p ps s = Returns () s'"
      "length (procs s') = length (procs s)"
      "initproc s' = initproc s \<and> nextpid s' = nextpid s \<and> pid_lock s' = pid_lock s
         \<and> wait_lock s' = wait_lock s \<and> switches s' = switches s"
      "\<forall>q < length (procs s). the_proc s' q = (the_proc s q)
            \<lparr>parent := (if q \<in> set ps \<and> parent (the_proc s q) = Some p then initproc s
                        else parent (the_proc s q)),
             state := (if (\<exists>j \<in> set ps. parent (the_proc s j) = Some p) \<and> Some q \<noteq> me
                           \<and> state (the_proc s q) = SLEEPING
                           \<and> chan (the_proc s q) = ptr_chan (initproc s)
                       then RUNNABLE else state (the_proc s q))\<rparr>"
      by auto
    have "\<forall>q < length (procs s). the_proc s' q = (the_proc s q)
            \<lparr>parent := (if q \<in> set (pp # ps) \<and> parent (the_proc s q) = Some p then initproc s
                        else parent (the_proc s q)),
             state := (if (\<exists>j \<in> set (pp # ps). parent (the_proc s j) = Some p) \<and> Some q \<noteq> me
                           \<and> state (the_proc s q) = SLEEPING
                           \<and> chan (the_proc s q) = ptr_chan (initproc s)
                       then RUNNABLE else state (the_proc s q))\<rparr>"
      using s'(4) False by auto
    with s'(1-3) False show ?thesis by simp
  next
    case True
    define c where "c = ptr_chan (initproc s)"
    define s1 where "s1 = upd pp (\<lambda>r. r\<lparr>parent := initproc s\<rparr>) s"
    have l1: "length (procs s1) = length (procs s)" by (simp add: s1_def)
    have g1: "initproc s1 = initproc s" "nextpid s1 = nextpid s" "pid_lock s1 = pid_lock s"
      "wait_lock s1 = wait_lock s" "switches s1 = switches s"
      by (simp_all add: s1_def)
    have p1: "the_proc s1 q = (if q = pp then (the_proc s pp)\<lparr>parent := initproc s\<rparr> else the_proc s q)" for q
      using pp(1) by (simp add: s1_def the_proc_upd)
    have f1: "\<forall>q < length (procs s1). \<not> lock (the_proc s1 q)"
      using Cons.prems(3) by (simp add: l1 p1)
    from wakeup_result [OF f1, of me c]
    obtain s2 where s2: "wakeup me c s1 = Returns () s2"
      "length (procs s2) = length (procs s)"
      "initproc s2 = initproc s" "nextpid s2 = nextpid s" "pid_lock s2 = pid_lock s"
      "wait_lock s2 = wait_lock s" "switches s2 = switches s"
      and p2: "\<forall>q < length (procs s). the_proc s2 q =
            (if Some q \<noteq> me \<and> state (the_proc s1 q) = SLEEPING \<and> chan (the_proc s1 q) = c
             then (the_proc s1 q)\<lparr>state := RUNNABLE\<rparr> else the_proc s1 q)"
      unfolding l1 g1 by blast
    have f2: "\<forall>q < length (procs s2). \<not> lock (the_proc s2 q)"
      using Cons.prems(3) by (simp add: s2(2) p2 p1)
    have v2: "\<forall>q \<in> set ps. q < length (procs s2)"
      using Cons.prems(2) by (simp add: s2(2))
    from Cons.IH [of s2, OF _ v2 f2] Cons.prems(1)
    obtain s' where s': "reparent_loop me p ps s2 = Returns () s'"
      "length (procs s') = length (procs s)"
      "initproc s' = initproc s \<and> nextpid s' = nextpid s \<and> pid_lock s' = pid_lock s
         \<and> wait_lock s' = wait_lock s \<and> switches s' = switches s"
      and p3: "\<forall>q < length (procs s). the_proc s' q = (the_proc s2 q)
            \<lparr>parent := (if q \<in> set ps \<and> parent (the_proc s2 q) = Some p then initproc s
                        else parent (the_proc s2 q)),
             state := (if (\<exists>j \<in> set ps. parent (the_proc s2 j) = Some p) \<and> Some q \<noteq> me
                           \<and> state (the_proc s2 q) = SLEEPING
                           \<and> chan (the_proc s2 q) = c
                       then RUNNABLE else state (the_proc s2 q))\<rparr>"
      unfolding s2 c_def by auto
    have step: "reparent_loop me p (pp # ps) s = Returns () s'"
      using True s2(1) s'(1) by (simp add: s1_def c_def)
    have kids: "(\<exists>j \<in> set ps. parent (the_proc s2 j) = Some p) \<longleftrightarrow> (\<exists>j \<in> set ps. parent (the_proc s j) = Some p)"
    proof -
      have "parent (the_proc s2 j) = parent (the_proc s j)" if "j \<in> set ps" for j
      proof -
        from that pp(2) have "j \<noteq> pp" by auto
        moreover from that Cons.prems(2) have "j < length (procs s)" by simp
        ultimately show ?thesis using p2 by (simp add: p1)
      qed
      then show ?thesis by auto
    qed
    have fin: "the_proc s' q = (the_proc s q)
            \<lparr>parent := (if q \<in> set (pp # ps) \<and> parent (the_proc s q) = Some p then initproc s
                        else parent (the_proc s q)),
             state := (if (\<exists>j \<in> set (pp # ps). parent (the_proc s j) = Some p) \<and> Some q \<noteq> me
                           \<and> state (the_proc s q) = SLEEPING
                           \<and> chan (the_proc s q) = ptr_chan (initproc s)
                       then RUNNABLE else state (the_proc s q))\<rparr>"
      if q: "q < length (procs s)" for q
    proof -
      from p3 q have a: "the_proc s' q = (the_proc s2 q)
            \<lparr>parent := (if q \<in> set ps \<and> parent (the_proc s2 q) = Some p then initproc s
                        else parent (the_proc s2 q)),
             state := (if (\<exists>j \<in> set ps. parent (the_proc s j) = Some p) \<and> Some q \<noteq> me
                           \<and> state (the_proc s2 q) = SLEEPING
                           \<and> chan (the_proc s2 q) = c
                       then RUNNABLE else state (the_proc s2 q))\<rparr>"
        unfolding kids by blast
      from p2 q have b: "the_proc s2 q =
            (if Some q \<noteq> me \<and> state (the_proc s1 q) = SLEEPING \<and> chan (the_proc s1 q) = c
             then (the_proc s1 q)\<lparr>state := RUNNABLE\<rparr> else the_proc s1 q)"
        by blast
      show ?thesis
        unfolding a b p1 using True pp(2)
        by (cases "q = pp") (auto simp: c_def)
    qed
    from step s'(2,3) fin show ?thesis by simp
  qed
qed


lemma reparent_result:
  assumes "\<forall>q < length (procs s). \<not> lock (the_proc s q)"
  shows "\<exists>s'. reparent me p s = Returns () s'
      \<and> length (procs s') = length (procs s)
      \<and> initproc s' = initproc s \<and> nextpid s' = nextpid s \<and> pid_lock s' = pid_lock s
      \<and> wait_lock s' = wait_lock s \<and> switches s' = switches s
      \<and> (\<forall>q < length (procs s). the_proc s' q = (the_proc s q)
            \<lparr>parent := (if parent (the_proc s q) = Some p then initproc s
                        else parent (the_proc s q)),
             state := (if (\<exists>j < length (procs s). parent (the_proc s j) = Some p) \<and> Some q \<noteq> me
                           \<and> state (the_proc s q) = SLEEPING
                           \<and> chan (the_proc s q) = ptr_chan (initproc s)
                       then RUNNABLE else state (the_proc s q))\<rparr>)"
proof -
  have b: "(\<exists>j \<in> set [0..<length (procs s)]. parent (the_proc s j) = Some p)
       \<longleftrightarrow> (\<exists>j < length (procs s). parent (the_proc s j) = Some p)"
    by auto
  from reparent_loop_result [of "[0..<length (procs s)]" s me p] assms
  obtain s' where s': "reparent_loop me p [0..<length (procs s)] s = Returns () s'"
      "length (procs s') = length (procs s)"
      "initproc s' = initproc s \<and> nextpid s' = nextpid s \<and> pid_lock s' = pid_lock s
      \<and> wait_lock s' = wait_lock s \<and> switches s' = switches s"
    and ps: "\<forall>q < length (procs s). the_proc s' q = (the_proc s q)
            \<lparr>parent := (if q \<in> set [0..<length (procs s)] \<and> parent (the_proc s q) = Some p then initproc s
                        else parent (the_proc s q)),
             state := (if (\<exists>j \<in> set [0..<length (procs s)]. parent (the_proc s j) = Some p) \<and> Some q \<noteq> me
                           \<and> state (the_proc s q) = SLEEPING
                           \<and> chan (the_proc s q) = ptr_chan (initproc s)
                       then RUNNABLE else state (the_proc s q))\<rparr>"
    by auto
  from ps have "\<forall>q < length (procs s). the_proc s' q = (the_proc s q)
            \<lparr>parent := (if parent (the_proc s q) = Some p then initproc s
                        else parent (the_proc s q)),
             state := (if (\<exists>j < length (procs s). parent (the_proc s j) = Some p) \<and> Some q \<noteq> me
                           \<and> state (the_proc s q) = SLEEPING
                           \<and> chan (the_proc s q) = ptr_chan (initproc s)
                       then RUNNABLE else state (the_proc s q))\<rparr>"
    unfolding b by simp
  with s' show ?thesis unfolding reparent_def by blast
qed

lemma obind_not_Returns: "(\<And>a s. f a s \<noteq> Returns r t) \<Longrightarrow> obind m f \<noteq> Returns r t"
  by (cases m) (simp_all add: obind_def)

lemma exit_never_returns: "exit E p status s \<noteq> Returns r t"
  unfolding exit_def Let_def
  by (auto intro!: obind_not_Returns)

lemma exit_reaches_sched:
  assumes lf: "locks_free s" and p: "p < length (procs s)" and ni: "initproc s \<noteq> Some p"
  shows "\<exists>sz. exit E p status s
           = (case resume E sz of None \<Rightarrow> Switched sz | Some s' \<Rightarrow> Panics ''zombie exit'' s')
      \<and> length (procs sz) = length (procs s)
      \<and> (\<forall>q < length (procs s). \<exists>st. the_proc sz q = (the_proc s q)
            \<lparr>lock := (q = p),
             ofile := (if q = p then (\<lambda>fd. if fd < NOFILE E then None else ofile (the_proc s p) fd)
                       else ofile (the_proc s q)),
             cwd := (if q = p then None else cwd (the_proc s q)),
             xstate := (if q = p then status else xstate (the_proc s q)),
             parent := (if parent (the_proc s q) = Some p then initproc s else parent (the_proc s q)),
             state := st\<rparr>
          \<and> (if q = p then st = ZOMBIE
              else if state (the_proc s q) = SLEEPING
                      \<and> (((\<exists>j < length (procs s). parent (the_proc s j) = Some p)
                            \<and> chan (the_proc s q) = ptr_chan (initproc s))
                          \<or> chan (the_proc s q)
                              = ptr_chan (if parent (the_proc s p) = Some p then initproc s
                                          else parent (the_proc s p)))
                   then st = RUNNABLE else st = state (the_proc s q)))"
proof -
  from lf have g: "\<not> wait_lock s" "\<not> pid_lock s" and fr: "\<forall>q < length (procs s). \<not> lock (the_proc s q)"
    by (simp_all add: locks_free_iff)
  define s1 where "s1 = upd p (\<lambda>r. r\<lparr>ofile := (\<lambda>fd. if fd < NOFILE E then None else ofile r fd),
                               cwd := None\<rparr>) s"
  define s2 where "s2 = s1\<lparr>wait_lock := True\<rparr>"
  have l2: "length (procs s2) = length (procs s)" by (simp add: s2_def s1_def)
  have g2: "initproc s2 = initproc s" "pid_lock s2 = pid_lock s" "wait_lock s2" "switches s2 = switches s"
    by (simp_all add: s2_def s1_def)
  have p2: "the_proc s2 q = (if q = p then (the_proc s p)
               \<lparr>ofile := (\<lambda>fd. if fd < NOFILE E then None else ofile (the_proc s p) fd), cwd := None\<rparr>
             else the_proc s q)" for q
    using p by (simp add: s2_def s1_def the_proc_upd)
  have f2: "\<forall>q < length (procs s2). \<not> lock (the_proc s2 q)"
    using fr by (simp add: l2 p2)
  have a1: "acquire WaitLock s1 = Returns () s2"
    using g by (simp add: acquire_wait_free s1_def s2_def)
  from reparent_result [OF f2, of "Some p" p]
  obtain s3 where s3: "reparent (Some p) p s2 = Returns () s3"
      "length (procs s3) = length (procs s)"
      "initproc s3 = initproc s" "pid_lock s3 = pid_lock s" "wait_lock s3" "switches s3 = switches s"
    and p3: "\<forall>q < length (procs s). the_proc s3 q = (the_proc s2 q)
            \<lparr>parent := (if parent (the_proc s2 q) = Some p then initproc s
                        else parent (the_proc s2 q)),
             state := (if (\<exists>j < length (procs s). parent (the_proc s2 j) = Some p) \<and> Some q \<noteq> Some p
                           \<and> state (the_proc s2 q) = SLEEPING
                           \<and> chan (the_proc s2 q) = ptr_chan (initproc s)
                       then RUNNABLE else state (the_proc s2 q))\<rparr>"
    unfolding l2 g2 using g2(3) by blast
  define c where "c = ptr_chan (parent (the_proc s3 p))"
  have f3: "\<forall>q < length (procs s3). \<not> lock (the_proc s3 q)"
    using f2 by (simp add: s3(2) l2 p3)
  from wakeup_result [OF f3, of "Some p" c]
  obtain s4 where s4: "wakeup (Some p) c s3 = Returns () s4"
      "length (procs s4) = length (procs s)"
      "initproc s4 = initproc s" "pid_lock s4 = pid_lock s" "wait_lock s4" "switches s4 = switches s"
    and p4: "\<forall>q < length (procs s). the_proc s4 q =
            (if Some q \<noteq> Some p \<and> state (the_proc s3 q) = SLEEPING \<and> chan (the_proc s3 q) = c
             then (the_proc s3 q)\<lparr>state := RUNNABLE\<rparr> else the_proc s3 q)"
    unfolding s3 using s3(5) by blast
  have f4: "\<forall>q < length (procs s). \<not> lock (the_proc s4 q)"
    using f3 by (simp add: s3(2) p4)
  define s6 where "s6 = (upd p (\<lambda>r. r\<lparr>lock := True, xstate := status, state := ZOMBIE\<rparr>) s4)
                          \<lparr>wait_lock := False\<rparr>"
  have a5: "acquire (ProcLock p) s4 = Returns () (upd p (\<lambda>r. r\<lparr>lock := True\<rparr>) s4)"
    using f4 p by (intro acquire_proc_free) simp
  have l6: "length (procs s6) = length (procs s)" by (simp add: s6_def s4(2))
  have p6: "the_proc s6 q = (if q = p then (the_proc s4 p)\<lparr>lock := True, xstate := status, state := ZOMBIE\<rparr>
                             else the_proc s4 q)" for q
    using p s4(2) by (simp add: s6_def the_proc_upd)
  have g6: "\<not> wait_lock s6" "\<not> pid_lock s6" "switches s6 = switches s"
    using g by (simp_all add: s6_def s4)
  have n6: "noff s6 = 1"
    using p f4 g6 by (intro noff_one [of p]) (simp_all add: l6 p6)
  define sz where "sz = s6\<lparr>switches := Suc (switches s6)\<rparr>"
  have sc: "sched E p s6 = (case resume E sz of None \<Rightarrow> Switched sz | Some s' \<Rightarrow> Returns () s')"
    using n6 p unfolding sz_def by (simp add: sched_def Let_def p6)
  have ex: "exit E p status s
           = (case resume E sz of None \<Rightarrow> Switched sz | Some s' \<Rightarrow> Panics ''zombie exit'' s')"
    using ni
    apply (simp add: exit_def Let_def flip: s1_def)
    apply (simp add: a1 s3(1) flip: c_def)
    apply (simp add: s4(1) a5 flip: s6_def)
    apply (simp add: sc obind_def split: option.split)
    done
  have lz: "length (procs sz) = length (procs s)" by (simp add: sz_def l6)
  have pz: "the_proc sz q = the_proc s6 q" for q by (simp add: sz_def)
  have c': "c = ptr_chan (if parent (the_proc s p) = Some p then initproc s else parent (the_proc s p))"
    using p by (simp add: c_def p3 p2)
  have kids: "(\<exists>j < length (procs s). parent (the_proc s2 j) = Some p)
       \<longleftrightarrow> (\<exists>j < length (procs s). parent (the_proc s j) = Some p)"
    by (auto simp: p2)
  have each: "\<exists>st. the_proc sz q = (the_proc s q)
            \<lparr>lock := (q = p),
             ofile := (if q = p then (\<lambda>fd. if fd < NOFILE E then None else ofile (the_proc s p) fd)
                       else ofile (the_proc s q)),
             cwd := (if q = p then None else cwd (the_proc s q)),
             xstate := (if q = p then status else xstate (the_proc s q)),
             parent := (if parent (the_proc s q) = Some p then initproc s else parent (the_proc s q)),
             state := st\<rparr>
          \<and> (if q = p then st = ZOMBIE
              else if state (the_proc s q) = SLEEPING
                      \<and> (((\<exists>j < length (procs s). parent (the_proc s j) = Some p)
                            \<and> chan (the_proc s q) = ptr_chan (initproc s))
                          \<or> chan (the_proc s q)
                              = ptr_chan (if parent (the_proc s p) = Some p then initproc s
                                          else parent (the_proc s p)))
                   then st = RUNNABLE else st = state (the_proc s q))"
    if q: "q < length (procs s)" for q
  proof -
    from p3 q have e3: "the_proc s3 q = (the_proc s2 q)
            \<lparr>parent := (if parent (the_proc s2 q) = Some p then initproc s
                        else parent (the_proc s2 q)),
             state := (if (\<exists>j < length (procs s). parent (the_proc s j) = Some p) \<and> q \<noteq> p
                           \<and> state (the_proc s2 q) = SLEEPING
                           \<and> chan (the_proc s2 q) = ptr_chan (initproc s)
                       then RUNNABLE else state (the_proc s2 q))\<rparr>"
      unfolding kids by simp
    from p4 q have e4: "the_proc s4 q =
            (if q \<noteq> p \<and> state (the_proc s3 q) = SLEEPING \<and> chan (the_proc s3 q) = c
             then (the_proc s3 q)\<lparr>state := RUNNABLE\<rparr> else the_proc s3 q)"
      by simp
    have nl: "\<not> lock (the_proc s q)" using fr q by simp
    show ?thesis
    proof (cases "q = p")
      case True
      have "the_proc sz q = (the_proc s q)
            \<lparr>lock := (q = p),
             ofile := (if q = p then (\<lambda>fd. if fd < NOFILE E then None else ofile (the_proc s p) fd)
                       else ofile (the_proc s q)),
             cwd := (if q = p then None else cwd (the_proc s q)),
             xstate := (if q = p then status else xstate (the_proc s q)),
             parent := (if parent (the_proc s q) = Some p then initproc s else parent (the_proc s q)),
             state := ZOMBIE\<rparr>"
        using True e3 e4 by (simp add: pz p6 p2)
      with True show ?thesis by (intro exI [of _ ZOMBIE]) simp
    next
      case False
      define st where "st = state (the_proc s4 q)"
      have "the_proc sz q = (the_proc s q)
            \<lparr>lock := (q = p),
             ofile := (if q = p then (\<lambda>fd. if fd < NOFILE E then None else ofile (the_proc s p) fd)
                       else ofile (the_proc s q)),
             cwd := (if q = p then None else cwd (the_proc s q)),
             xstate := (if q = p then status else xstate (the_proc s q)),
             parent := (if parent (the_proc s q) = Some p then initproc s else parent (the_proc s q)),
             state := st\<rparr>"
        unfolding st_def pz p6 e4 e3 p2 using False nl
        by (cases "the_proc s q") auto
      moreover have "if state (the_proc s q) = SLEEPING
                      \<and> (((\<exists>j < length (procs s). parent (the_proc s j) = Some p)
                            \<and> chan (the_proc s q) = ptr_chan (initproc s))
                          \<or> chan (the_proc s q)
                              = ptr_chan (if parent (the_proc s p) = Some p then initproc s
                                          else parent (the_proc s p)))
                   then st = RUNNABLE else st = state (the_proc s q)"
        unfolding st_def e4 e3 p2 c' using False by auto
      ultimately show ?thesis using False by (intro exI [of _ st]) simp
    qed
  qed
  from ex lz each show ?thesis by blast
qed


section \<open>C9: exit\<close>

text \<open>
  Claim C9.  \<^verbatim>\<open>exit\<close> called by the bootstrap process panics.  Called by any other
  process \<open>p\<close>, with no lock held, it reaches the switch to the scheduler in a state \<open>sz\<close>
  in which \<open>p\<close> is a \<^verbatim>\<open>ZOMBIE\<close> with the given exit status, every slot whose parent was
  \<open>p\<close> has the bootstrap process as parent and every other parent field is unchanged,
  the bootstrap process, if it slept on itself (as in \<^verbatim>\<open>wait\<close>) and a child was handed
  over, is \<^verbatim>\<open>RUNNABLE\<close>, and the parent of \<open>p\<close>, if it slept on itself, is \<^verbatim>\<open>RUNNABLE\<close>.
  From there the process is either never switched back in, or the kernel panics
  (\<^verbatim>\<open>zombie exit\<close>).  In no case does \<^verbatim>\<open>exit\<close> return to its caller.
\<close>

theorem exit_becomes_zombie:
  assumes lf: "locks_free s" and p: "p < length (procs s)"
  shows "(initproc s = Some p \<longrightarrow> exit E p status s = Panics ''init exiting'' s)
     \<and> (initproc s \<noteq> Some p \<longrightarrow>
          (\<exists>sz. exit E p status s
                   = (case resume E sz of None \<Rightarrow> Switched sz | Some s' \<Rightarrow> Panics ''zombie exit'' s')
             \<and> length (procs sz) = length (procs s)
             \<and> state (the_proc sz p) = ZOMBIE \<and> xstate (the_proc sz p) = status
             \<and> (\<forall>q < length (procs s). parent (the_proc sz q)
                    = (if parent (the_proc s q) = Some p then initproc s else parent (the_proc s q)))
             \<and> (\<forall>i < length (procs s). initproc s = Some i
                    \<and> (\<exists>q < length (procs s). parent (the_proc s q) = Some p)
                    \<and> state (the_proc s i) = SLEEPING \<and> chan (the_proc s i) = ProcChan i
                    \<longrightarrow> state (the_proc sz i) = RUNNABLE)
             \<and> (\<forall>pp < length (procs s). parent (the_proc s p) = Some pp \<and> pp \<noteq> p
                    \<and> state (the_proc s pp) = SLEEPING \<and> chan (the_proc s pp) = ProcChan pp
                    \<longrightarrow> state (the_proc sz pp) = RUNNABLE)))
     \<and> (\<forall>r t. exit E p status s \<noteq> Returns r t)"
proof -
  have 1: "initproc s = Some p \<longrightarrow> exit E p status s = Panics ''init exiting'' s"
    by (simp add: exit_def)
  have 3: "\<forall>r t. exit E p status s \<noteq> Returns r t"
    by (simp add: exit_never_returns)
  have 2: "initproc s \<noteq> Some p \<longrightarrow>
          (\<exists>sz. exit E p status s
                   = (case resume E sz of None \<Rightarrow> Switched sz | Some s' \<Rightarrow> Panics ''zombie exit'' s')
             \<and> length (procs sz) = length (procs s)
             \<and> state (the_proc sz p) = ZOMBIE \<and> xstate (the_proc sz p) = status
             \<and> (\<forall>q < length (procs s). parent (the_proc sz q)
                    = (if parent (the_proc s q) = Some p then initproc s else parent (the_proc s q)))
             \<and> (\<forall>i < length (procs s). initproc s = Some i
                    \<and> (\<exists>q < length (procs s). parent (the_proc s q) = Some p)
                    \<and> state (the_proc s i) = SLEEPING \<and> chan (the_proc s i) = ProcChan i
                    \<longrightarrow> state (the_proc sz i) = RUNNABLE)
             \<and> (\<forall>pp < length (procs s). parent (the_proc s p) = Some pp \<and> pp \<noteq> p
                    \<and> state (the_proc s pp) = SLEEPING \<and> chan (the_proc s pp) = ProcChan pp
                    \<longrightarrow> state (the_proc sz pp) = RUNNABLE))"
  proof
    assume ni: "initproc s \<noteq> Some p"
    from exit_reaches_sched [OF lf p ni, of E status]
    obtain sz where ex: "exit E p status s
           = (case resume E sz of None \<Rightarrow> Switched sz | Some s' \<Rightarrow> Panics ''zombie exit'' s')"
      and len: "length (procs sz) = length (procs s)"
      and each: "\<forall>q < length (procs s). \<exists>st. the_proc sz q = (the_proc s q)
            \<lparr>lock := (q = p),
             ofile := (if q = p then (\<lambda>fd. if fd < NOFILE E then None else ofile (the_proc s p) fd)
                       else ofile (the_proc s q)),
             cwd := (if q = p then None else cwd (the_proc s q)),
             xstate := (if q = p then status else xstate (the_proc s q)),
             parent := (if parent (the_proc s q) = Some p then initproc s else parent (the_proc s q)),
             state := st\<rparr>
          \<and> (if q = p then st = ZOMBIE
              else if state (the_proc s q) = SLEEPING
                      \<and> (((\<exists>j < length (procs s). parent (the_proc s j) = Some p)
                            \<and> chan (the_proc s q) = ptr_chan (initproc s))
                          \<or> chan (the_proc s q)
                              = ptr_chan (if parent (the_proc s p) = Some p then initproc s
                                          else parent (the_proc s p)))
                   then st = RUNNABLE else st = state (the_proc s q))"
      by blast
    have a: "state (the_proc sz p) = ZOMBIE \<and> xstate (the_proc sz p) = status"
      using each p by fastforce
    have b: "\<forall>q < length (procs s). parent (the_proc sz q)
                    = (if parent (the_proc s q) = Some p then initproc s else parent (the_proc s q))"
    proof (intro allI impI)
      fix q assume "q < length (procs s)"
      with each obtain st where "the_proc sz q = (the_proc s q)
            \<lparr>lock := (q = p),
             ofile := (if q = p then (\<lambda>fd. if fd < NOFILE E then None else ofile (the_proc s p) fd)
                       else ofile (the_proc s q)),
             cwd := (if q = p then None else cwd (the_proc s q)),
             xstate := (if q = p then status else xstate (the_proc s q)),
             parent := (if parent (the_proc s q) = Some p then initproc s else parent (the_proc s q)),
             state := st\<rparr>"
        by blast
      then show "parent (the_proc sz q)
                    = (if parent (the_proc s q) = Some p then initproc s else parent (the_proc s q))"
        by simp
    qed
    have c: "\<forall>i < length (procs s). initproc s = Some i
                    \<and> (\<exists>q < length (procs s). parent (the_proc s q) = Some p)
                    \<and> state (the_proc s i) = SLEEPING \<and> chan (the_proc s i) = ProcChan i
                    \<longrightarrow> state (the_proc sz i) = RUNNABLE"
    proof (intro allI impI)
      fix i assume i: "i < length (procs s)" and h: "initproc s = Some i
                    \<and> (\<exists>q < length (procs s). parent (the_proc s q) = Some p)
                    \<and> state (the_proc s i) = SLEEPING \<and> chan (the_proc s i) = ProcChan i"
      from h ni have np: "i \<noteq> p" by auto
      from h have cc: "chan (the_proc s i) = ptr_chan (initproc s)" by simp
      from each i obtain st where st: "state (the_proc sz i) = st"
        "if i = p then st = ZOMBIE
              else if state (the_proc s i) = SLEEPING
                      \<and> (((\<exists>j < length (procs s). parent (the_proc s j) = Some p)
                            \<and> chan (the_proc s i) = ptr_chan (initproc s))
                          \<or> chan (the_proc s i)
                              = ptr_chan (if parent (the_proc s p) = Some p then initproc s
                                          else parent (the_proc s p)))
                   then st = RUNNABLE else st = state (the_proc s i)"
        by fastforce
      from st(2) np cc h have "st = RUNNABLE" by (simp split: if_splits)
      with st(1) show "state (the_proc sz i) = RUNNABLE" by simp
    qed
    have d: "\<forall>pp < length (procs s). parent (the_proc s p) = Some pp \<and> pp \<noteq> p
                    \<and> state (the_proc s pp) = SLEEPING \<and> chan (the_proc s pp) = ProcChan pp
                    \<longrightarrow> state (the_proc sz pp) = RUNNABLE"
    proof (intro allI impI)
      fix pp assume pp: "pp < length (procs s)" and h: "parent (the_proc s p) = Some pp \<and> pp \<noteq> p
                    \<and> state (the_proc s pp) = SLEEPING \<and> chan (the_proc s pp) = ProcChan pp"
      then have cc: "chan (the_proc s pp)
                   = ptr_chan (if parent (the_proc s p) = Some p then initproc s else parent (the_proc s p))"
        by auto
      from each pp obtain st where st: "state (the_proc sz pp) = st"
        "if pp = p then st = ZOMBIE
              else if state (the_proc s pp) = SLEEPING
                      \<and> (((\<exists>j < length (procs s). parent (the_proc s j) = Some p)
                            \<and> chan (the_proc s pp) = ptr_chan (initproc s))
                          \<or> chan (the_proc s pp)
                              = ptr_chan (if parent (the_proc s p) = Some p then initproc s
                                          else parent (the_proc s p)))
                   then st = RUNNABLE else st = state (the_proc s pp)"
        by fastforce
      from st(2) cc h have "st = RUNNABLE" by (simp split: if_splits)
      with st(1) show "state (the_proc sz pp) = RUNNABLE" by simp
    qed
    from ex len a b c d show "\<exists>sz. exit E p status s
                   = (case resume E sz of None \<Rightarrow> Switched sz | Some s' \<Rightarrow> Panics ''zombie exit'' s')
             \<and> length (procs sz) = length (procs s)
             \<and> state (the_proc sz p) = ZOMBIE \<and> xstate (the_proc sz p) = status
             \<and> (\<forall>q < length (procs s). parent (the_proc sz q)
                    = (if parent (the_proc s q) = Some p then initproc s else parent (the_proc s q)))
             \<and> (\<forall>i < length (procs s). initproc s = Some i
                    \<and> (\<exists>q < length (procs s). parent (the_proc s q) = Some p)
                    \<and> state (the_proc s i) = SLEEPING \<and> chan (the_proc s i) = ProcChan i
                    \<longrightarrow> state (the_proc sz i) = RUNNABLE)
             \<and> (\<forall>pp < length (procs s). parent (the_proc s p) = Some pp \<and> pp \<noteq> p
                    \<and> state (the_proc s pp) = SLEEPING \<and> chan (the_proc s pp) = ProcChan pp
                    \<longrightarrow> state (the_proc sz pp) = RUNNABLE)"
      by blast
  qed
  from 1 2 3 show ?thesis by blast
qed

text \<open>At the concrete table: \<^verbatim>\<open>exit\<close> by the bootstrap process (slot 0) panics; when
  the shell (slot 1) exits with status 7 it becomes a zombie, its child in slot 2 is
  handed to slot 0, and the bootstrap process, asleep in \<^verbatim>\<open>wait\<close>, is made runnable.\<close>

theorem exit_becomes_zombie_witness:
  "locks_free S0 \<and> 0 < length (procs S0) \<and> 1 < length (procs S0)
   \<and> initproc S0 = Some 0 \<and> exit E0 0 7 S0 = Panics ''init exiting'' S0
   \<and> parent (the_proc S0 2) = Some 1 \<and> parent (the_proc S0 1) = Some 0
   \<and> state (the_proc S0 0) = SLEEPING \<and> chan (the_proc S0 0) = ProcChan 0
   \<and> (\<exists>sz. exit E0 1 7 S0 = Switched sz
         \<and> state (the_proc sz 1) = ZOMBIE \<and> xstate (the_proc sz 1) = 7
         \<and> parent (the_proc sz 2) = Some 0 \<and> state (the_proc sz 0) = RUNNABLE)"
proof -
  have len: "0 < length (procs S0)" "1 < length (procs S0)" "2 < length (procs S0)"
    by (simp_all add: S0_slots)
  have ch: "chan (the_proc S0 0) = ProcChan 0"
    unfolding S0_slots by (simp add: P_init_def P_free_def)
  from exit_becomes_zombie [OF locks_free_S0 len(1), of E0 7] S0_globals(3)
  have 1: "exit E0 0 7 S0 = Panics ''init exiting'' S0"
    by blast
  have ni: "initproc S0 \<noteq> Some 1" by (simp add: S0_globals)
  have r: "resume E0 t = None" for t by (simp add: E0_def)
  from exit_becomes_zombie [OF locks_free_S0 len(2), of E0 7] ni
  obtain sz where ex: "exit E0 1 7 S0
                   = (case resume E0 sz of None \<Rightarrow> Switched sz | Some s' \<Rightarrow> Panics ''zombie exit'' s')"
      and z: "state (the_proc sz 1) = ZOMBIE" "xstate (the_proc sz 1) = 7"
      and par: "\<forall>q < length (procs S0). parent (the_proc sz q)
                    = (if parent (the_proc S0 q) = Some 1 then initproc S0 else parent (the_proc S0 q))"
      and wk: "\<forall>i < length (procs S0). initproc S0 = Some i
                    \<and> (\<exists>q < length (procs S0). parent (the_proc S0 q) = Some 1)
                    \<and> state (the_proc S0 i) = SLEEPING \<and> chan (the_proc S0 i) = ProcChan i
                    \<longrightarrow> state (the_proc sz i) = RUNNABLE"
    by blast
  from ex have e: "exit E0 1 7 S0 = Switched sz" by (simp add: r)
  from par len(3) S0_family(3) S0_globals(3) have p2: "parent (the_proc sz 2) = Some 0"
    by simp
  have "\<exists>q < length (procs S0). parent (the_proc S0 q) = Some 1"
    using len(3) S0_family(3) by blast
  with wk len(1) S0_globals(3) S0_family(5) ch have w0: "state (the_proc sz 0) = RUNNABLE"
    by blast
  from e z p2 w0 have "\<exists>sz. exit E0 1 7 S0 = Switched sz
         \<and> state (the_proc sz 1) = ZOMBIE \<and> xstate (the_proc sz 1) = 7
         \<and> parent (the_proc sz 2) = Some 0 \<and> state (the_proc sz 0) = RUNNABLE"
    by blast
  with locks_free_S0 len(1,2) S0_globals(3) 1 S0_family(2,3,5) ch show ?thesis
    by blast
qed

end
